theory Spec2Isabelle
  imports Main "HOL-Library.Multiset" "HOL-Library.Char_ord" "HOL-Library.List_Lexorder"
begin

section \<open>Library functions the program calls\<close>

text \<open>
  The program is a Go command-line client in two variants: \<^verbatim>\<open>go/nexus/main.go\<close>, which
  keeps search records as \<^verbatim>\<open>map[string]string\<close> and decodes JSON into untyped values, and a
  second file (\<^verbatim>\<open>unnamed/part_000\<close>), which uses the structs \<^verbatim>\<open>SearchResult\<close>,
  \<^verbatim>\<open>Component\<close>, \<^verbatim>\<open>Asset\<close> and \<^verbatim>\<open>Checksum\<close>. Both define \<^verbatim>\<open>filterTags\<close>,
  \<^verbatim>\<open>processImages\<close> and \<^verbatim>\<open>SearchImages\<close>; the definitions below carry the suffix
  \<open>_main\<close> for the first file and \<open>_p0\<close> for the second.

  Go strings are byte sequences, as \<^typ>\<open>string\<close> is. Go compares strings byte-wise
  and lexicographically (a proper prefix is smaller), which is the order of \<^typ>\<open>string\<close>
  here: the lexicographic order of lists over the order of characters by their codes.
\<close>

subsection \<open>strconv.Atoi\<close>

text \<open>
  \<^verbatim>\<open>strconv.Atoi\<close> belongs to Go's standard library. It accepts an optional sign
  (\<^verbatim>\<open>+\<close> or \<^verbatim>\<open>-\<close>) followed by at least one decimal digit and nothing else, and fails
  when the value does not fit the type \<^verbatim>\<open>int\<close> (64 bits are modelled). The callers
  only look at the value when the error is nil, so a failure is \<open>None\<close>.
\<close>

fun digitsValue :: "nat \<Rightarrow> string \<Rightarrow> nat option" where
  "digitsValue n [] = Some n"
| "digitsValue n (ch # s) =
     (if 48 \<le> (of_char ch :: nat) \<and> (of_char ch :: nat) \<le> 57
      then digitsValue (n * 10 + ((of_char ch :: nat) - 48)) s
      else None)"

definition Atoi :: "string \<Rightarrow> int option" where
  "Atoi s =
     (case s of
        [] \<Rightarrow> None
      | c # rest \<Rightarrow>
          (let neg = (c = CHR ''-'');
               body = (if c = CHR ''-'' \<or> c = CHR ''+'' then rest else s)
           in if body = [] then None
              else (case digitsValue 0 body of
                      None \<Rightarrow> None
                    | Some n \<Rightarrow>
                        (let v = (if neg then - int n else int n)
                         in if - (2 ^ 63) \<le> v \<and> v < 2 ^ 63 then Some v else None))))"

subsection \<open>sort.Slice\<close>

text \<open>
  \<^verbatim>\<open>sort.Slice(x, less)\<close> also belongs to the standard library. It rearranges the slice
  by swaps only, so its result is a permutation of its input whatever \<^verbatim>\<open>less\<close> does;
  it is not stable, and the order it leaves depends on its algorithm when \<^verbatim>\<open>less\<close>
  is not a strict weak order. The program's functions therefore take the sort as a
  parameter \<open>srt\<close>, the comparator being given on the values it reads at the two indices.

  On short slices (at most 12 elements since Go 1.19, at most 6 in the releases before) the
  library runs the insertion sort below
  (\<^verbatim>\<open>for i := a+1; i < b; i++ { for j := i; j > a && less(j, j-1); j-- { swap(j, j-1) } }\<close>);
  this instance evaluates the program on concrete inputs, all of which are that short. The
  prefix already handled is kept reversed, so that the element being moved meets its left
  neighbour first.
\<close>

type_synonym 'a sorter = "('a \<Rightarrow> 'a \<Rightarrow> bool) \<Rightarrow> 'a list \<Rightarrow> 'a list"

fun moveLeft :: "('a \<Rightarrow> 'a \<Rightarrow> bool) \<Rightarrow> 'a \<Rightarrow> 'a list \<Rightarrow> 'a list" where
  "moveLeft lt x [] = [x]"
| "moveLeft lt x (y # ys) = (if lt x y then y # moveLeft lt x ys else x # y # ys)"

definition insertionSort :: "'a sorter" where
  "insertionSort lt xs = rev (foldl (\<lambda>pre x. moveLeft lt x pre) [] xs)"

definition permuting :: "'a sorter \<Rightarrow> bool" where
  "permuting srt \<longleftrightarrow> (\<forall>lt xs. mset (srt lt xs) = mset xs)"

section \<open>Tag filter\<close>

subsection \<open>The comparators of the two variants\<close>

text \<open>
  main.go: \<^verbatim>\<open>if errI != nil || errJ != nil { return false }; return numI > numJ\<close>.
\<close>

definition less_main :: "string \<Rightarrow> string \<Rightarrow> bool" where
  "less_main a b =
     (case (Atoi a, Atoi b) of
        (Some numI, Some numJ) \<Rightarrow> numI > numJ
      | _ \<Rightarrow> False)"

text \<open>
  part_000: \<^verbatim>\<open>if iErr == nil && jErr == nil { return iNum > jNum }; return versionTags[i] > versionTags[j]\<close>.
\<close>

definition less_p0 :: "string \<Rightarrow> string \<Rightarrow> bool" where
  "less_p0 a b =
     (case (Atoi a, Atoi b) of
        (Some iNum, Some jNum) \<Rightarrow> iNum > jNum
      | _ \<Rightarrow> a > b)"

subsection \<open>filterTags\<close>

text \<open>
  The last loop of main.go's \<^verbatim>\<open>filterTags\<close>: it walks the input tags and returns
  with \<^verbatim>\<open>"latest"\<close> prepended at the first tag that is \<^verbatim>\<open>"latest"\<close> while both
  digests are non-empty and equal; when the loop ends, the version tags are returned.
\<close>

fun latestLoop_main :: "string list \<Rightarrow> string \<Rightarrow> string \<Rightarrow> string list \<Rightarrow> string list" where
  "latestLoop_main [] latestDigest versionDigest versionTags = versionTags"
| "latestLoop_main (tag # rest) latestDigest versionDigest versionTags =
     (if tag = ''latest'' \<and> latestDigest \<noteq> [] \<and> versionDigest \<noteq> [] \<and> latestDigest = versionDigest
      then ''latest'' # versionTags
      else latestLoop_main rest latestDigest versionDigest versionTags)"

definition filterTags_main :: "string sorter \<Rightarrow> string list \<Rightarrow> string \<Rightarrow> string \<Rightarrow> string list" where
  "filterTags_main srt tags latestDigest versionDigest =
     (if length tags = 0 then []
      else
        (let versionTags = filter (\<lambda>tag. tag \<noteq> ''latest'') tags;
             versionTags = srt less_main versionTags;
             versionTags = (if length versionTags > 2 then take 2 versionTags else versionTags)
         in latestLoop_main tags latestDigest versionDigest versionTags))"

definition filterTags_p0 :: "string sorter \<Rightarrow> string list \<Rightarrow> string \<Rightarrow> string \<Rightarrow> string list" where
  "filterTags_p0 srt tags latestDigest versionDigest =
     (if length tags = 0 then tags
      else
        (let versionTags = filter (\<lambda>tag. tag \<noteq> ''latest'') tags;
             hasLatest = (\<exists>tag \<in> set tags. tag = ''latest'');
             versionTags = srt less_p0 versionTags;
             versionTags = (if length versionTags > 2 then take 2 versionTags else versionTags)
         in if hasLatest \<and> latestDigest \<noteq> [] \<and> versionDigest \<noteq> [] \<and> latestDigest = versionDigest
            then ''latest'' # versionTags
            else versionTags))"

subsection \<open>Search records\<close>

text \<open>
  part_000 keeps a search record in the struct \<^verbatim>\<open>SearchResult\<close>. main.go keeps it in
  a \<^verbatim>\<open>map[string]string\<close> with the keys \<^verbatim>\<open>"name"\<close>, \<^verbatim>\<open>"version"\<close> and
  \<^verbatim>\<open>"sha256"\<close>; reading a key the map does not have gives the empty string.
\<close>

record SearchResult =
  Name :: string
  Version :: string
  SHA256 :: string

type_synonym image = "string \<rightharpoonup> string"

definition field :: "image \<Rightarrow> string \<Rightarrow> string" where
  "field m k = (case m k of None \<Rightarrow> [] | Some v \<Rightarrow> v)"

definition toImage :: "SearchResult \<Rightarrow> image" where
  "toImage r =
     [''name'' \<mapsto> SearchResult.Name r, ''version'' \<mapsto> SearchResult.Version r,
      ''sha256'' \<mapsto> SearchResult.SHA256 r]"

subsection \<open>processImages\<close>

text \<open>
  Grouping: \<^verbatim>\<open>imageGroups[name] = append(imageGroups[name], image)\<close> for every record in
  order.
\<close>

definition imageGroups_main :: "image list \<Rightarrow> (string \<rightharpoonup> image list)" where
  "imageGroups_main images =
     foldl (\<lambda>groups image.
              (let name = field image ''name''
               in groups(name \<mapsto> (case groups name of None \<Rightarrow> [] | Some g \<Rightarrow> g) @ [image])))
           Map.empty images"

definition imageGroups_p0 :: "SearchResult list \<Rightarrow> (string \<rightharpoonup> SearchResult list)" where
  "imageGroups_p0 images =
     foldl (\<lambda>groups img.
              groups(SearchResult.Name img \<mapsto>
                (case groups (SearchResult.Name img) of None \<Rightarrow> [] | Some g \<Rightarrow> g) @ [img]))
           Map.empty images"

text \<open>
  The loop over the records of one group carries the local variables \<^verbatim>\<open>tags\<close>,
  \<^verbatim>\<open>latestDigest\<close>, \<^verbatim>\<open>versionDigest\<close> and \<^verbatim>\<open>highestVersion\<close>. main.go declares
  \<^verbatim>\<open>var highestVersion int\<close> (so it starts at 0), part_000 declares
  \<^verbatim>\<open>var highestVersion int = -1\<close>.
\<close>

type_synonym groupVars = "string list \<times> string \<times> string \<times> int"

fun versionStep_main :: "groupVars \<Rightarrow> image \<Rightarrow> groupVars" where
  "versionStep_main (tags, latestDigest, versionDigest, highestVersion) versionInfo =
     (let version = field versionInfo ''version'';
          sha256 = field versionInfo ''sha256'';
          tags = tags @ [version]
      in if version = ''latest'' then (tags, sha256, versionDigest, highestVersion)
         else (case Atoi version of
                 Some versionNum \<Rightarrow>
                   if versionNum > highestVersion then (tags, latestDigest, sha256, versionNum)
                   else (tags, latestDigest, versionDigest, highestVersion)
               | None \<Rightarrow> (tags, latestDigest, versionDigest, highestVersion)))"

definition groupVars_main :: "image list \<Rightarrow> groupVars" where
  "groupVars_main versions = foldl versionStep_main ([], [], [], 0) versions"

fun versionStep_p0 :: "groupVars \<Rightarrow> SearchResult \<Rightarrow> groupVars" where
  "versionStep_p0 (tags, latestDigest, versionDigest, highestVersion) ver =
     (let tags = tags @ [SearchResult.Version ver]
      in if SearchResult.Version ver = ''latest''
         then (tags, SearchResult.SHA256 ver, versionDigest, highestVersion)
         else (case Atoi (SearchResult.Version ver) of
                 Some num \<Rightarrow>
                   if num > highestVersion then (tags, latestDigest, SearchResult.SHA256 ver, num)
                   else (tags, latestDigest, versionDigest, highestVersion)
               | None \<Rightarrow> (tags, latestDigest, versionDigest, highestVersion)))"

definition groupVars_p0 :: "SearchResult list \<Rightarrow> groupVars" where
  "groupVars_p0 versions = foldl versionStep_p0 ([], [], [], -1) versions"

text \<open>
  The result is a Go map from image name to tag list, written once per group; the order in
  which Go walks \<^verbatim>\<open>imageGroups\<close> therefore does not show in it. main.go stores a
  group's tags only \<^verbatim>\<open>if len(filteredTags) > 0\<close> (and its error result is always nil);
  part_000 stores them always. A nil slice and an empty slice are both the empty list.
\<close>

definition processImages_main :: "string sorter \<Rightarrow> image list \<Rightarrow> (string \<rightharpoonup> string list)" where
  "processImages_main srt images =
     (\<lambda>name.
        case imageGroups_main images name of
          None \<Rightarrow> None
        | Some versions \<Rightarrow>
            (case groupVars_main versions of
               (tags, latestDigest, versionDigest, highestVersion) \<Rightarrow>
                 (let filteredTags = filterTags_main srt tags latestDigest versionDigest
                  in if length filteredTags > 0 then Some filteredTags else None)))"

definition processImages_p0 :: "string sorter \<Rightarrow> SearchResult list \<Rightarrow> (string \<rightharpoonup> string list)" where
  "processImages_p0 srt images =
     (\<lambda>name.
        case imageGroups_p0 images name of
          None \<Rightarrow> None
        | Some versions \<Rightarrow>
            (case groupVars_p0 versions of
               (tags, latestDigest, versionDigest, highestVersion) \<Rightarrow>
                 Some (filterTags_p0 srt tags latestDigest versionDigest)))"

text \<open>
  The tags reported for an image name: the entry of the result map, and no tags when the map
  has no entry for the name.
\<close>

definition reported :: "(string \<rightharpoonup> string list) \<Rightarrow> string \<Rightarrow> string list" where
  "reported results name = (case results name of None \<Rightarrow> [] | Some ts \<Rightarrow> ts)"

text \<open>
  \<^verbatim>\<open>sort.Slice\<close> calls \<^verbatim>\<open>less\<close> on indices of the slice only: two comparators
  that agree on the elements of the slice give the same result.
\<close>

definition elementwise :: "'a sorter \<Rightarrow> bool" where
  "elementwise srt \<longleftrightarrow>
     (\<forall>lt lt' xs. (\<forall>a\<in>set xs. \<forall>b\<in>set xs. lt a b = lt' a b) \<longrightarrow> srt lt xs = srt lt' xs)"

text \<open>
  The records of the first scenario of the specification (those of the first case of the
  repository's test \<^verbatim>\<open>TestProcessImages\<close>, with shorter names).
\<close>

definition sampleRecords :: "SearchResult list" where
  "sampleRecords =
     [\<lparr>SearchResult.Name = ''img'', Version = ''latest'', SHA256 = ''D2''\<rparr>,
      \<lparr>SearchResult.Name = ''img'', Version = ''1'', SHA256 = ''D1''\<rparr>,
      \<lparr>SearchResult.Name = ''img'', Version = ''2'', SHA256 = ''D2''\<rparr>]"

text \<open>
  The result of part_000 with the entries of empty tag lists left out, as main.go leaves
  them out.
\<close>

definition dropEmpty :: "(string \<rightharpoonup> string list) \<Rightarrow> (string \<rightharpoonup> string list)" where
  "dropEmpty results =
     (\<lambda>name. case results name of
                None \<Rightarrow> None
              | Some ts \<Rightarrow> if ts = [] then None else Some ts)"

subsection \<open>The digest of the highest version, in the words of the specification\<close>

text \<open>
  Among the version tags of a group (the tags other than \<^verbatim>\<open>"latest"\<close>) that parse as
  non-negative integers: the digest of the numerically largest one, the first such record in
  group order when several have that value; the empty string when there is none.
\<close>

definition numericVersions :: "SearchResult list \<Rightarrow> (int \<times> string) list" where
  "numericVersions versions =
     concat (map (\<lambda>r. if SearchResult.Version r = ''latest'' then []
                        else (case Atoi (SearchResult.Version r) of
                                Some n \<Rightarrow> if 0 \<le> n then [(n, SearchResult.SHA256 r)] else []
                              | None \<Rightarrow> []))
                 versions)"

definition digestOfHighest :: "SearchResult list \<Rightarrow> string" where
  "digestOfHighest versions =
     (let c = numericVersions versions
      in if c = [] then []
         else (case find (\<lambda>(n, d). n = Max (set (map fst c))) c of
                 Some (n, d) \<Rightarrow> d
               | None \<Rightarrow> []))"

section \<open>Search aggregator\<close>

subsection \<open>Requests and replies\<close>

text \<open>
  \<^verbatim>\<open>makeRequest\<close> sends one HTTP GET and returns the decoded page or an error: the request
  cannot be built, the transport fails, the status is not 200, the body cannot be read
  (main.go reads it before decoding) or it cannot be decoded.

  The server is outside the program. A run of \<^verbatim>\<open>SearchImages\<close> is modelled against the
  list of replies the client receives to its successive requests, in order: each call of
  \<^verbatim>\<open>makeRequest\<close> takes the next reply. What a request carries (repository, format,
  name pattern, continuation token) reaches the server only and shows in the program through
  the reply; the properties below hold for every list of replies. A run that asks for more
  replies than the list holds has not returned within the list: its value is \<open>None\<close>. The
  replies left over are returned with the result.
\<close>

datatype requestError =
  RequestNotCreated | TransportFailed | HTTPStatus nat | BodyUnreadable | BodyUndecodable

type_synonym 'page reply = "requestError + 'page"

subsection \<open>part\_000: typed pages\<close>

record Checksum =
  SHA256 :: string

record Asset =
  Checksum :: Checksum

record Component =
  Name :: string
  Version :: string
  Assets :: "Asset list"
  Tags :: "string list"

record NexusResponse =
  Items :: "Component list"
  ContinuationToken :: string

text \<open>
  The body of the loop over \<^verbatim>\<open>data.Items\<close>. \<^verbatim>\<open>seenImages\<close> is a
  \<^verbatim>\<open>map[string]bool\<close> that only ever stores \<^verbatim>\<open>true\<close>: the set of its keys.
\<close>

type_synonym aggregate_p0 = "string set \<times> SearchResult list"

fun addComponent_p0 :: "aggregate_p0 \<Rightarrow> Component \<Rightarrow> aggregate_p0" where
  "addComponent_p0 (seenImages, matchingImages) component =
     (let imageKey = Component.Name component @ '':'' @ Component.Version component
      in if imageKey \<in> seenImages then (seenImages, matchingImages)
         else
           (let seenImages = insert imageKey seenImages;
                sha256 = (if length (Assets component) > 0
                          then Checksum.SHA256 (Asset.Checksum (Assets component ! 0))
                          else [])
            in (seenImages,
                matchingImages @
                  [\<lparr>SearchResult.Name = Component.Name component,
                    Version = Component.Version component, SHA256 = sha256\<rparr>])))"

text \<open>
  The page loop of one pattern: fetch a page, add its items, go on while the page carries a
  continuation token. An error of \<^verbatim>\<open>makeRequest\<close> is returned as it is.
\<close>

fun pageLoop_p0 ::
  "aggregate_p0 \<Rightarrow> NexusResponse reply list \<Rightarrow>
     ((requestError + aggregate_p0) \<times> NexusResponse reply list) option" where
  "pageLoop_p0 st [] = None"
| "pageLoop_p0 st (Inl err # world) = Some (Inl err, world)"
| "pageLoop_p0 st (Inr data # world) =
     (let st = foldl addComponent_p0 st (Items data)
      in if ContinuationToken data = [] then Some (Inr st, world)
         else pageLoop_p0 st world)"

fun patternLoop_p0 ::
  "aggregate_p0 \<Rightarrow> string list \<Rightarrow> NexusResponse reply list \<Rightarrow>
     ((requestError + aggregate_p0) \<times> NexusResponse reply list) option" where
  "patternLoop_p0 st [] world = Some (Inr st, world)"
| "patternLoop_p0 st (pattern # patterns) world =
     (case pageLoop_p0 st world of
        None \<Rightarrow> None
      | Some (Inl err, world) \<Rightarrow> Some (Inl err, world)
      | Some (Inr st, world) \<Rightarrow> patternLoop_p0 st patterns world)"

text \<open>
  \<^verbatim>\<open>SearchImages\<close> returns the Go pair of the records and the error:
  \<^verbatim>\<open>return nil, err\<close> on a failed request, \<^verbatim>\<open>return matchingImages, nil\<close> at the end.
\<close>

definition SearchImages_p0 ::
  "string list \<Rightarrow> NexusResponse reply list \<Rightarrow>
     ((SearchResult list \<times> requestError option) \<times> NexusResponse reply list) option" where
  "SearchImages_p0 patterns world =
     (case patternLoop_p0 ({}, []) patterns world of
        None \<Rightarrow> None
      | Some (Inl err, world) \<Rightarrow> Some (([], Some err), world)
      | Some (Inr (seenImages, matchingImages), world) \<Rightarrow> Some ((matchingImages, None), world))"

definition SearchAndFilterImages_p0 ::
  "string sorter \<Rightarrow> string list \<Rightarrow> NexusResponse reply list \<Rightarrow>
     (((string \<rightharpoonup> string list) \<times> requestError option) \<times> NexusResponse reply list) option" where
  "SearchAndFilterImages_p0 srt patterns world =
     (case SearchImages_p0 patterns world of
        None \<Rightarrow> None
      | Some ((images, Some err), world) \<Rightarrow> Some ((Map.empty, Some err), world)
      | Some ((images, None), world) \<Rightarrow>
          if length images = 0 then Some ((Map.empty, None), world)
          else Some ((processImages_p0 srt images, None), world))"

subsection \<open>main.go: untyped pages\<close>

text \<open>
  main.go decodes the body into \<^verbatim>\<open>map[string]interface{}\<close> and reads it with type
  assertions. A decoded JSON object is an association list read with \<^const>\<open>map_of\<close>; a
  number is never read by the program. \<^verbatim>\<open>v, _ := x.(T)\<close> gives the zero value of
  \<^verbatim>\<open>T\<close> (empty string, nil slice, nil map) when \<^verbatim>\<open>x\<close> is missing or of another
  type, and reading a nil map gives nothing.
\<close>

datatype json =
  JNull | JBool bool | JNumber int | JString string | JArray "json list"
| JObject "(string \<times> json) list"

type_synonym jobject = "(string \<times> json) list"

definition asString :: "json option \<Rightarrow> string" where
  "asString x = (case x of Some (JString s) \<Rightarrow> s | _ \<Rightarrow> [])"

definition asArray :: "json option \<Rightarrow> json list" where
  "asArray x = (case x of Some (JArray xs) \<Rightarrow> xs | _ \<Rightarrow> [])"

definition asObject :: "json option \<Rightarrow> jobject" where
  "asObject x = (case x of Some (JObject m) \<Rightarrow> m | _ \<Rightarrow> [])"

datatype searchError = SearchFailed requestError | InvalidResponseFormat

type_synonym aggregate_main = "string set \<times> image list"

text \<open>The body of the loop over \<^verbatim>\<open>items\<close>; an item that is not an object is skipped.\<close>

fun addItem_main :: "aggregate_main \<Rightarrow> json \<Rightarrow> aggregate_main" where
  "addItem_main (seenImages, matchingImages) (JObject component) =
     (let name = asString (map_of component ''name'');
          version = asString (map_of component ''version'');
          imageKey = name @ '':'' @ version
      in if imageKey \<in> seenImages then (seenImages, matchingImages)
         else
           (let seenImages = insert imageKey seenImages;
                assets = asArray (map_of component ''assets'');
                sha256 = (if length assets > 0
                          then (let asset = asObject (Some (assets ! 0));
                                    checksum = asObject (map_of asset ''checksum'')
                                in asString (map_of checksum ''sha256''))
                          else [])
            in (seenImages,
                matchingImages @
                  [[''name'' \<mapsto> name, ''version'' \<mapsto> version, ''sha256'' \<mapsto> sha256]])))"
| "addItem_main (seenImages, matchingImages) item = (seenImages, matchingImages)"

text \<open>
  The page loop: a failed request is wrapped (\<^verbatim>\<open>"search failed: ..."\<close>), a page whose
  \<^verbatim>\<open>"items"\<close> is not an array is an error of its own, and the loop goes on while
  \<^verbatim>\<open>"continuationToken"\<close> is a non-empty string.
\<close>

fun pageLoop_main ::
  "aggregate_main \<Rightarrow> jobject reply list \<Rightarrow>
     ((searchError + aggregate_main) \<times> jobject reply list) option" where
  "pageLoop_main st [] = None"
| "pageLoop_main st (Inl err # world) = Some (Inl (SearchFailed err), world)"
| "pageLoop_main st (Inr data # world) =
     (case map_of data ''items'' of
        Some (JArray items) \<Rightarrow>
          (let st = foldl addItem_main st items
           in case map_of data ''continuationToken'' of
                Some (JString token) \<Rightarrow>
                  if token \<noteq> [] then pageLoop_main st world else Some (Inr st, world)
              | _ \<Rightarrow> Some (Inr st, world))
      | _ \<Rightarrow> Some (Inl InvalidResponseFormat, world))"

fun patternLoop_main ::
  "aggregate_main \<Rightarrow> string list \<Rightarrow> jobject reply list \<Rightarrow>
     ((searchError + aggregate_main) \<times> jobject reply list) option" where
  "patternLoop_main st [] world = Some (Inr st, world)"
| "patternLoop_main st (pattern # patterns) world =
     (case pageLoop_main st world of
        None \<Rightarrow> None
      | Some (Inl err, world) \<Rightarrow> Some (Inl err, world)
      | Some (Inr st, world) \<Rightarrow> patternLoop_main st patterns world)"

text \<open>
  main.go's \<^verbatim>\<open>SearchImages\<close> ends with \<^verbatim>\<open>return n.processImages(matchingImages)\<close>; on
  an error it returns the nil map, which reads as the empty map.
\<close>

definition SearchImages_main ::
  "string sorter \<Rightarrow> string list \<Rightarrow> jobject reply list \<Rightarrow>
     (((string \<rightharpoonup> string list) \<times> searchError option) \<times> jobject reply list) option" where
  "SearchImages_main srt patterns world =
     (case patternLoop_main ({}, []) patterns world of
        None \<Rightarrow> None
      | Some (Inl err, world) \<Rightarrow> Some ((Map.empty, Some err), world)
      | Some (Inr (seenImages, matchingImages), world) \<Rightarrow>
          Some ((processImages_main srt matchingImages, None), world))"

subsection \<open>Vocabulary for the properties of the aggregator\<close>

text \<open>
  The entries of a list that are first of their key: entry \<open>i\<close> stays exactly when no
  entry before it has its key. The order is that of the list.
\<close>

definition firstOccurrences :: "('a \<Rightarrow> 'k) \<Rightarrow> 'a list \<Rightarrow> 'a list" where
  "firstOccurrences key xs =
     map (\<lambda>i. xs ! i) (filter (\<lambda>i. key (xs ! i) \<notin> set (map key (take i xs))) [0..<length xs])"

text \<open>The key and the record part_000 makes of a component.\<close>

definition imageKey_p0 :: "Component \<Rightarrow> string" where
  "imageKey_p0 c = Component.Name c @ '':'' @ Component.Version c"

definition firstAssetDigest_p0 :: "Component \<Rightarrow> string" where
  "firstAssetDigest_p0 c =
     (case Assets c of [] \<Rightarrow> [] | a # _ \<Rightarrow> Checksum.SHA256 (Asset.Checksum a))"

definition toResult_p0 :: "Component \<Rightarrow> SearchResult" where
  "toResult_p0 c =
     \<lparr>SearchResult.Name = Component.Name c, Version = Component.Version c,
      SHA256 = firstAssetDigest_p0 c\<rparr>"

text \<open>
  The same for main.go, on the objects among the items of a page; an item that is not an
  object is no entry.
\<close>

definition components_main :: "json list \<Rightarrow> jobject list" where
  "components_main items =
     concat (map (\<lambda>item. case item of JObject c \<Rightarrow> [c] | _ \<Rightarrow> []) items)"

definition name_main :: "jobject \<Rightarrow> string" where
  "name_main c = asString (map_of c ''name'')"

definition version_main :: "jobject \<Rightarrow> string" where
  "version_main c = asString (map_of c ''version'')"

definition imageKey_main :: "jobject \<Rightarrow> string" where
  "imageKey_main c = name_main c @ '':'' @ version_main c"

definition firstAssetDigest_main :: "jobject \<Rightarrow> string" where
  "firstAssetDigest_main c =
     (case asArray (map_of c ''assets'') of
        [] \<Rightarrow> []
      | a # _ \<Rightarrow> asString (map_of (asObject (map_of (asObject (Some a)) ''checksum'')) ''sha256''))"

definition toImage_main :: "jobject \<Rightarrow> image" where
  "toImage_main c =
     [''name'' \<mapsto> name_main c, ''version'' \<mapsto> version_main c,
      ''sha256'' \<mapsto> firstAssetDigest_main c]"

text \<open>
  The pages one pattern is answered with, when every request succeeds: at least one page,
  and the last page is the only one without a continuation token.
\<close>

fun lastPageOnly_p0 :: "NexusResponse list \<Rightarrow> bool" where
  "lastPageOnly_p0 [] = False"
| "lastPageOnly_p0 [p] = (ContinuationToken p = [])"
| "lastPageOnly_p0 (p # q # ps) = (ContinuationToken p \<noteq> [] \<and> lastPageOnly_p0 (q # ps))"

definition items_main :: "jobject \<Rightarrow> json list option" where
  "items_main data = (case map_of data ''items'' of Some (JArray items) \<Rightarrow> Some items | _ \<Rightarrow> None)"

definition token_main :: "jobject \<Rightarrow> string" where
  "token_main data = asString (map_of data ''continuationToken'')"

fun lastPageOnly_main :: "jobject list \<Rightarrow> bool" where
  "lastPageOnly_main [] = False"
| "lastPageOnly_main [p] = (items_main p \<noteq> None \<and> token_main p = [])"
| "lastPageOnly_main (p # q # ps) =
     (items_main p \<noteq> None \<and> token_main p \<noteq> [] \<and> lastPageOnly_main (q # ps))"

definition entries_main :: "jobject list \<Rightarrow> jobject list" where
  "entries_main pages = components_main (concat (map (\<lambda>p. asArray (map_of p ''items'')) pages))"

text \<open>
  The replies main.go's page loop takes for a failure, with the error it returns: a failed
  request, or a page whose \<^verbatim>\<open>"items"\<close> is not an array.
\<close>

definition replyError_main :: "jobject reply \<Rightarrow> searchError option" where
  "replyError_main x =
     (case x of
        Inl err \<Rightarrow> Some (SearchFailed err)
      | Inr data \<Rightarrow> if items_main data = None then Some InvalidResponseFormat else None)"

text \<open>The (name, version) pair of an entry.\<close>

definition pair_p0 :: "Component \<Rightarrow> string \<times> string" where
  "pair_p0 c = (Component.Name c, Component.Version c)"

definition pair_main :: "jobject \<Rightarrow> string \<times> string" where
  "pair_main c = (name_main c, version_main c)"

text \<open>
  Sample pages: two patterns with overlapping matches. The first pattern is answered with two
  pages, the second with one; \<^verbatim>\<open>foo:1\<close> comes twice for the first pattern and
  \<^verbatim>\<open>foo-bar:1\<close> once for each; \<^verbatim>\<open>foo-bar:1\<close> has no asset.
\<close>

definition sampleComponent :: "string \<Rightarrow> string \<Rightarrow> string list \<Rightarrow> Component" where
  "sampleComponent n v digests =
     \<lparr>Component.Name = n, Version = v,
      Assets = map (\<lambda>d. \<lparr>Checksum = \<lparr>Checksum.SHA256 = d\<rparr>\<rparr>) digests, Tags = []\<rparr>"

definition samplePages_p0 :: "NexusResponse list list" where
  "samplePages_p0 =
     [[\<lparr>Items = [sampleComponent ''foo'' ''1'' [''A'', ''B''], sampleComponent ''foo-bar'' ''1'' []],
        ContinuationToken = ''t1''\<rparr>,
       \<lparr>Items = [sampleComponent ''foo'' ''1'' [''A''], sampleComponent ''foo'' ''2'' [''C'']],
        ContinuationToken = []\<rparr>],
      [\<lparr>Items = [sampleComponent ''foo-bar'' ''1'' [], sampleComponent ''foo-bar'' ''2'' [''D'']],
        ContinuationToken = []\<rparr>]]"

definition sampleFields :: "string \<Rightarrow> string \<Rightarrow> string list \<Rightarrow> jobject" where
  "sampleFields n v digests =
     [(''name'', JString n), (''version'', JString v),
      (''assets'', JArray (map (\<lambda>d. JObject [(''checksum'', JObject [(''sha256'', JString d)])])
                               digests))]"

definition sampleItem :: "string \<Rightarrow> string \<Rightarrow> string list \<Rightarrow> json" where
  "sampleItem n v digests = JObject (sampleFields n v digests)"

definition samplePages_main :: "jobject list list" where
  "samplePages_main =
     [[[(''items'', JArray [sampleItem ''foo'' ''1'' [''A'', ''B''], sampleItem ''foo-bar'' ''1'' []]),
        (''continuationToken'', JString ''t1'')],
       [(''items'', JArray [sampleItem ''foo'' ''1'' [''A''], JNull, sampleItem ''foo'' ''2'' [''C'']]),
        (''continuationToken'', JNull)]],
      [[(''items'', JArray [sampleItem ''foo-bar'' ''1'' [], sampleItem ''foo-bar'' ''2'' [''D'']])]]]"

text \<open>
  The state of the aggregator after the entries \<open>es\<close>: the keys seen are those of \<open>es\<close>, and the
  records are those of the first occurrences among \<open>es\<close>.
\<close>

definition aggregated_p0 :: "Component list \<Rightarrow> aggregate_p0 \<Rightarrow> bool" where
  "aggregated_p0 es st \<longleftrightarrow>
     fst st = set (map imageKey_p0 es) \<and>
     snd st = map toResult_p0 (firstOccurrences imageKey_p0 es)"

definition aggregated_main :: "jobject list \<Rightarrow> aggregate_main \<Rightarrow> bool" where
  "aggregated_main es st \<longleftrightarrow>
     fst st = set (map imageKey_main es) \<and>
     snd st = map toImage_main (firstOccurrences imageKey_main es)"

section \<open>Facts about the library functions and the grouping\<close>


lemma mset_moveLeft: "mset (moveLeft lt x ys) = add_mset x (mset ys)"
  by (induction ys) auto

lemma mset_foldl_moveLeft:
  "mset (foldl (\<lambda>pre x. moveLeft lt x pre) acc xs) = mset acc + mset xs"
  by (induction xs arbitrary: acc) (auto simp: mset_moveLeft)

lemma permuting_insertionSort: "permuting insertionSort"
  by (simp add: permuting_def insertionSort_def mset_foldl_moveLeft)

lemma permuting_set: "permuting srt \<Longrightarrow> set (srt lt xs) = set xs"
  unfolding permuting_def by (metis set_mset_mset)

lemma moveLeft_cong:
  "lt x x = lt' x x \<Longrightarrow> \<forall>b\<in>set ys. lt x b = lt' x b \<Longrightarrow> moveLeft lt x ys = moveLeft lt' x ys"
  by (induction ys) auto

lemma set_moveLeft: "set (moveLeft lt x ys) = insert x (set ys)"
  by (induction ys) auto

lemma foldl_moveLeft_cong:
  "\<forall>a\<in>set acc \<union> set xs. \<forall>b\<in>set acc \<union> set xs. lt a b = lt' a b \<Longrightarrow>
   foldl (\<lambda>pre x. moveLeft lt x pre) acc xs = foldl (\<lambda>pre x. moveLeft lt' x pre) acc xs"
proof (induction xs arbitrary: acc)
  case Nil
  show ?case by simp
next
  case (Cons x xs)
  have step: "moveLeft lt x acc = moveLeft lt' x acc"
    using Cons.prems by (intro moveLeft_cong) auto
  have "\<forall>a\<in>set (moveLeft lt' x acc) \<union> set xs. \<forall>b\<in>set (moveLeft lt' x acc) \<union> set xs. lt a b = lt' a b"
    using Cons.prems by (auto simp: set_moveLeft)
  from Cons.IH[OF this] show ?case by (simp add: step)
qed

text \<open>A group holds the records of its name, in input order; names without a record have none.\<close>

lemma foldl_groups_p0:
  "foldl (\<lambda>groups img.
              groups(SearchResult.Name img \<mapsto>
                (case groups (SearchResult.Name img) of None \<Rightarrow> [] | Some g \<Rightarrow> g) @ [img]))
           G images n =
   (case G n of
      None \<Rightarrow> (if filter (\<lambda>r. SearchResult.Name r = n) images = [] then None
                else Some (filter (\<lambda>r. SearchResult.Name r = n) images))
    | Some g \<Rightarrow> Some (g @ filter (\<lambda>r. SearchResult.Name r = n) images))"
  by (induction images arbitrary: G) (auto split: option.splits)

lemma imageGroups_p0_filter:
  "imageGroups_p0 images n =
     (if filter (\<lambda>r. SearchResult.Name r = n) images = [] then None
      else Some (filter (\<lambda>r. SearchResult.Name r = n) images))"
  by (simp add: imageGroups_p0_def foldl_groups_p0)

lemma foldl_groups_main:
  "foldl (\<lambda>groups image.
              (let name = field image ''name''
               in groups(name \<mapsto> (case groups name of None \<Rightarrow> [] | Some g \<Rightarrow> g) @ [image])))
           G images n =
   (case G n of
      None \<Rightarrow> (if filter (\<lambda>m. field m ''name'' = n) images = [] then None
                else Some (filter (\<lambda>m. field m ''name'' = n) images))
    | Some g \<Rightarrow> Some (g @ filter (\<lambda>m. field m ''name'' = n) images))"
  by (induction images arbitrary: G) (auto split: option.splits simp: Let_def)

lemma imageGroups_main_filter:
  "imageGroups_main images n =
     (if filter (\<lambda>m. field m ''name'' = n) images = [] then None
      else Some (filter (\<lambda>m. field m ''name'' = n) images))"
  by (simp add: imageGroups_main_def foldl_groups_main)


section \<open>Properties of the tag filter\<close>

lemma latestLoop_main_eq:
  "latestLoop_main tags ld vd vts =
     (if ''latest'' \<in> set tags \<and> ld \<noteq> [] \<and> vd \<noteq> [] \<and> ld = vd then ''latest'' # vts else vts)"
  by (induction tags) auto

lemma filterTags_main_eq:
  "filterTags_main srt tags ld vd =
     (if tags = [] then []
      else (if ''latest'' \<in> set tags \<and> ld \<noteq> [] \<and> vd \<noteq> [] \<and> ld = vd then [''latest''] else [])
           @ take 2 (srt less_main (filter (\<lambda>t. t \<noteq> ''latest'') tags)))"
  by (simp add: filterTags_main_def latestLoop_main_eq Let_def)

lemma filterTags_p0_eq:
  "filterTags_p0 srt tags ld vd =
     (if tags = [] then []
      else (if ''latest'' \<in> set tags \<and> ld \<noteq> [] \<and> vd \<noteq> [] \<and> ld = vd then [''latest''] else [])
           @ take 2 (srt less_p0 (filter (\<lambda>t. t \<noteq> ''latest'') tags)))"
  by (simp add: filterTags_p0_def Let_def)

lemma latest_not_in_versionTags:
  assumes "permuting srt"
  shows "''latest'' \<notin> set (take 2 (srt lt (filter (\<lambda>t. t \<noteq> ''latest'') tags)))"
proof
  assume "''latest'' \<in> set (take 2 (srt lt (filter (\<lambda>t. t \<noteq> ''latest'') tags)))"
  then have "''latest'' \<in> set (srt lt (filter (\<lambda>t. t \<noteq> ''latest'') tags))"
    by (rule in_set_takeD)
  then show False using permuting_set[OF assms] by simp
qed

lemma versionTags_subset:
  assumes "permuting srt"
  shows "set (take 2 (srt lt (filter (\<lambda>t. t \<noteq> ''latest'') tags))) \<subseteq> set tags"
proof
  fix x assume "x \<in> set (take 2 (srt lt (filter (\<lambda>t. t \<noteq> ''latest'') tags)))"
  then have "x \<in> set (srt lt (filter (\<lambda>t. t \<noteq> ''latest'') tags))"
    by (rule in_set_takeD)
  then show "x \<in> set tags" using permuting_set[OF assms] by simp
qed

lemma fst_foldl_versionStep_p0:
  "fst (foldl versionStep_p0 (t, l, v, h) vs) = t @ map SearchResult.Version vs"
  by (induction vs arbitrary: t l v h) (auto simp: Let_def split: option.splits)

lemma fst_foldl_versionStep_main:
  "fst (foldl versionStep_main (t, l, v, h) vs) = t @ map (\<lambda>m. field m ''version'') vs"
  by (induction vs arbitrary: t l v h) (auto simp: Let_def split: option.splits)

lemma groupVars_p0_tags:
  "groupVars_p0 versions = (tags, rest) \<Longrightarrow> tags = map SearchResult.Version versions"
  using fst_foldl_versionStep_p0[of "[]" "[]" "[]" "-1" versions]
  by (simp add: groupVars_p0_def)

lemma groupVars_main_tags:
  "groupVars_main versions = (tags, rest) \<Longrightarrow> tags = map (\<lambda>m. field m ''version'') versions"
  using fst_foldl_versionStep_main[of "[]" "[]" "[]" 0 versions]
  by (simp add: groupVars_main_def)

lemma imageGroups_p0_nonempty: "imageGroups_p0 images n = Some versions \<Longrightarrow> versions \<noteq> []"
  by (auto simp: imageGroups_p0_filter split: if_splits)

lemma imageGroups_main_nonempty: "imageGroups_main images n = Some versions \<Longrightarrow> versions \<noteq> []"
  by (auto simp: imageGroups_main_filter split: if_splits)

lemma reported_p0:
  assumes "imageGroups_p0 images name = Some versions"
    and "groupVars_p0 versions = (tags, ld, vd, hv)"
  shows "reported (processImages_p0 srt images) name = filterTags_p0 srt tags ld vd"
  using assms by (simp add: reported_def processImages_p0_def)

lemma reported_main:
  assumes "imageGroups_main images name = Some versions"
    and "groupVars_main versions = (tags, ld, vd, hv)"
  shows "reported (processImages_main srt images) name = filterTags_main srt tags ld vd"
  using assms by (simp add: reported_def processImages_main_def Let_def)

text \<open>
  Claim C1. For every group of records sharing a name, with \<open>latestDigest\<close> and
  \<open>versionDigest\<close> as \<^verbatim>\<open>processImages\<close> computes them for the group: the tag
  \<^verbatim>\<open>"latest"\<close> is among the tags reported for the image if and only if the group has a
  \<^verbatim>\<open>"latest"\<close> record, both digests are non-empty and they are equal. When it is
  reported it stands first, in front of the version tags already sorted and cut to two;
  otherwise the version tags alone are reported. Both variants, for any sort that permutes.
\<close>

theorem latest_inclusion:
  assumes "permuting srt"
  shows
    "(imageGroups_p0 images name = Some versions \<and>
      groupVars_p0 versions = (tags, latestDigest, versionDigest, highestVersion) \<longrightarrow>
        tags = map SearchResult.Version versions \<and>
        (''latest'' \<in> set (reported (processImages_p0 srt images) name) \<longleftrightarrow>
           ''latest'' \<in> set tags \<and> latestDigest \<noteq> [] \<and> versionDigest \<noteq> [] \<and>
           latestDigest = versionDigest) \<and>
        reported (processImages_p0 srt images) name =
          (if ''latest'' \<in> set (reported (processImages_p0 srt images) name) then [''latest''] else [])
          @ take 2 (srt less_p0 (filter (\<lambda>t. t \<noteq> ''latest'') tags))) \<and>
     (imageGroups_main images' name = Some versions' \<and>
      groupVars_main versions' = (tags', latestDigest', versionDigest', highestVersion') \<longrightarrow>
        tags' = map (\<lambda>m. field m ''version'') versions' \<and>
        (''latest'' \<in> set (reported (processImages_main srt images') name) \<longleftrightarrow>
           ''latest'' \<in> set tags' \<and> latestDigest' \<noteq> [] \<and> versionDigest' \<noteq> [] \<and>
           latestDigest' = versionDigest') \<and>
        reported (processImages_main srt images') name =
          (if ''latest'' \<in> set (reported (processImages_main srt images') name) then [''latest''] else [])
          @ take 2 (srt less_main (filter (\<lambda>t. t \<noteq> ''latest'') tags')))"
proof (intro conjI impI; elim conjE)
  note nl = latest_not_in_versionTags[OF assms]
  {
    assume g: "imageGroups_p0 images name = Some versions"
      and v: "groupVars_p0 versions = (tags, latestDigest, versionDigest, highestVersion)"
    show t: "tags = map SearchResult.Version versions" by (rule groupVars_p0_tags[OF v])
    have ne: "tags \<noteq> []" using t imageGroups_p0_nonempty[OF g] by simp
    have r: "reported (processImages_p0 srt images) name = filterTags_p0 srt tags latestDigest versionDigest"
      by (rule reported_p0[OF g v])
    show m: "''latest'' \<in> set (reported (processImages_p0 srt images) name) \<longleftrightarrow>
           ''latest'' \<in> set tags \<and> latestDigest \<noteq> [] \<and> versionDigest \<noteq> [] \<and>
           latestDigest = versionDigest"
      using ne nl[of less_p0 tags] by (simp add: r filterTags_p0_eq)
    show "reported (processImages_p0 srt images) name =
          (if ''latest'' \<in> set (reported (processImages_p0 srt images) name) then [''latest''] else [])
          @ take 2 (srt less_p0 (filter (\<lambda>t. t \<noteq> ''latest'') tags))"
      unfolding m using ne by (simp add: r filterTags_p0_eq)
  }
  {
    assume g: "imageGroups_main images' name = Some versions'"
      and v: "groupVars_main versions' = (tags', latestDigest', versionDigest', highestVersion')"
    show t: "tags' = map (\<lambda>m. field m ''version'') versions'" by (rule groupVars_main_tags[OF v])
    have ne: "tags' \<noteq> []" using t imageGroups_main_nonempty[OF g] by simp
    have r: "reported (processImages_main srt images') name = filterTags_main srt tags' latestDigest' versionDigest'"
      by (rule reported_main[OF g v])
    show m: "''latest'' \<in> set (reported (processImages_main srt images') name) \<longleftrightarrow>
           ''latest'' \<in> set tags' \<and> latestDigest' \<noteq> [] \<and> versionDigest' \<noteq> [] \<and>
           latestDigest' = versionDigest'"
      using ne nl[of less_main tags'] by (simp add: r filterTags_main_eq)
    show "reported (processImages_main srt images') name =
          (if ''latest'' \<in> set (reported (processImages_main srt images') name) then [''latest''] else [])
          @ take 2 (srt less_main (filter (\<lambda>t. t \<noteq> ''latest'') tags'))"
      unfolding m using ne by (simp add: r filterTags_main_eq)
  }
qed


lemma elementwise_insertionSort: "elementwise insertionSort"
  unfolding elementwise_def insertionSort_def
  by (auto intro!: arg_cong[where f=rev] foldl_moveLeft_cong)

theorem latest_inclusion_witness:
  "permuting (insertionSort :: string sorter) \<and>
   imageGroups_p0 sampleRecords ''img'' = Some sampleRecords \<and>
   groupVars_p0 sampleRecords = ([''latest'', ''1'', ''2''], ''D2'', ''D2'', 2) \<and>
   reported (processImages_p0 insertionSort sampleRecords) ''img'' = [''latest'', ''2'', ''1''] \<and>
   imageGroups_main (map toImage sampleRecords) ''img'' = Some (map toImage sampleRecords) \<and>
   groupVars_main (map toImage sampleRecords) = ([''latest'', ''1'', ''2''], ''D2'', ''D2'', 2) \<and>
   reported (processImages_main insertionSort (map toImage sampleRecords)) ''img'' = [''latest'', ''2'', ''1'']"
proof -
  have p: "permuting (insertionSort :: string sorter)" by (rule permuting_insertionSort)
  have g: "imageGroups_p0 sampleRecords ''img'' = Some sampleRecords"
    by (simp add: sampleRecords_def imageGroups_p0_def)
  have v: "groupVars_p0 sampleRecords = ([''latest'', ''1'', ''2''], ''D2'', ''D2'', 2)"
    by (simp add: sampleRecords_def groupVars_p0_def Atoi_def)
  have g': "imageGroups_main (map toImage sampleRecords) ''img'' = Some (map toImage sampleRecords)"
    by (simp add: sampleRecords_def imageGroups_main_def toImage_def field_def Let_def)
  have v': "groupVars_main (map toImage sampleRecords) = ([''latest'', ''1'', ''2''], ''D2'', ''D2'', 2)"
    by (simp add: sampleRecords_def groupVars_main_def toImage_def field_def Atoi_def Let_def)
  have s: "take 2 (insertionSort less_p0 (filter (\<lambda>t. t \<noteq> ''latest'') [''latest'', ''1'', ''2''])) = [''2'', ''1'']"
    by (simp add: insertionSort_def less_p0_def Atoi_def)
  have s': "take 2 (insertionSort less_main (filter (\<lambda>t. t \<noteq> ''latest'') [''latest'', ''1'', ''2''])) = [''2'', ''1'']"
    by (simp add: insertionSort_def less_main_def Atoi_def)
  note incl = latest_inclusion[OF p, of sampleRecords "''img''" sampleRecords "[''latest'', ''1'', ''2'']"
      "''D2''" "''D2''" 2 "map toImage sampleRecords" "map toImage sampleRecords"
      "[''latest'', ''1'', ''2'']" "''D2''" "''D2''" 2]
  from incl g v have m: "''latest'' \<in> set (reported (processImages_p0 insertionSort sampleRecords) ''img'')"
    by simp
  from incl g v have "reported (processImages_p0 insertionSort sampleRecords) ''img'' =
      (if ''latest'' \<in> set (reported (processImages_p0 insertionSort sampleRecords) ''img'')
       then [''latest''] else [])
      @ take 2 (insertionSort less_p0 (filter (\<lambda>t. t \<noteq> ''latest'') [''latest'', ''1'', ''2'']))"
    by blast
  then have r: "reported (processImages_p0 insertionSort sampleRecords) ''img'' = [''latest'', ''2'', ''1'']"
    unfolding s using m by simp
  from incl g' v'
  have m': "''latest'' \<in> set (reported (processImages_main insertionSort (map toImage sampleRecords)) ''img'')"
    by simp
  from incl g' v' have "reported (processImages_main insertionSort (map toImage sampleRecords)) ''img'' =
      (if ''latest'' \<in> set (reported (processImages_main insertionSort (map toImage sampleRecords)) ''img'')
       then [''latest''] else [])
      @ take 2 (insertionSort less_main (filter (\<lambda>t. t \<noteq> ''latest'') [''latest'', ''1'', ''2'']))"
    by blast
  then have r': "reported (processImages_main insertionSort (map toImage sampleRecords)) ''img'' = [''latest'', ''2'', ''1'']"
    unfolding s' using m' by simp
  from p g v g' v' r r' show ?thesis by blast
qed

text \<open>
  Claim C4. For every record sequence and every image name at most three tags are reported,
  and \<^verbatim>\<open>filterTags\<close> returns a list of at most two version tags, with or without
  \<^verbatim>\<open>"latest"\<close> in front of it. Both variants, for any sort.
\<close>

theorem at_most_three_tags:
  "length (reported (processImages_p0 srt images) name) \<le> 3 \<and>
   length (reported (processImages_main srt images') name) \<le> 3 \<and>
   (\<exists>versionTags. length versionTags \<le> 2 \<and>
      (filterTags_p0 srt tags latestDigest versionDigest = versionTags \<or>
       filterTags_p0 srt tags latestDigest versionDigest = ''latest'' # versionTags)) \<and>
   (\<exists>versionTags. length versionTags \<le> 2 \<and>
      (filterTags_main srt tags latestDigest versionDigest = versionTags \<or>
       filterTags_main srt tags latestDigest versionDigest = ''latest'' # versionTags))"
proof (intro conjI)
  have a: "length (filterTags_p0 srt t l v) \<le> 3" for t l v
    by (auto simp: filterTags_p0_eq min_def)
  have b: "length (filterTags_main srt t l v) \<le> 3" for t l v
    by (auto simp: filterTags_main_eq min_def)
  show "length (reported (processImages_p0 srt images) name) \<le> 3"
    using a by (auto simp: reported_def processImages_p0_def split: option.splits prod.splits)
  show "length (reported (processImages_main srt images') name) \<le> 3"
    using b by (auto simp: reported_def processImages_main_def Let_def split: option.splits prod.splits)
  show "\<exists>versionTags. length versionTags \<le> 2 \<and>
      (filterTags_p0 srt tags latestDigest versionDigest = versionTags \<or>
       filterTags_p0 srt tags latestDigest versionDigest = ''latest'' # versionTags)"
  proof (cases "tags = []")
    case True
    then show ?thesis by (simp add: filterTags_p0_eq)
  next
    case False
    then show ?thesis
      by (intro exI[of _ "take 2 (srt less_p0 (filter (\<lambda>t. t \<noteq> ''latest'') tags))"])
         (simp add: filterTags_p0_eq)
  qed
  show "\<exists>versionTags. length versionTags \<le> 2 \<and>
      (filterTags_main srt tags latestDigest versionDigest = versionTags \<or>
       filterTags_main srt tags latestDigest versionDigest = ''latest'' # versionTags)"
  proof (cases "tags = []")
    case True
    then show ?thesis by (simp add: filterTags_main_eq)
  next
    case False
    then show ?thesis
      by (intro exI[of _ "take 2 (srt less_main (filter (\<lambda>t. t \<noteq> ''latest'') tags))"])
         (simp add: filterTags_main_eq)
  qed
qed

text \<open>
  Claim C8. On the empty record sequence \<^verbatim>\<open>processImages\<close> returns the empty map, in
  both variants.
\<close>

theorem empty_input_empty_result:
  "processImages_p0 srt [] = Map.empty \<and> processImages_main srt [] = Map.empty"
  by (simp add: processImages_p0_def processImages_main_def imageGroups_p0_def imageGroups_main_def)

text \<open>
  Claim C10. For every tag list and every pair of digests, the list \<^verbatim>\<open>filterTags\<close>
  returns holds \<^verbatim>\<open>"latest"\<close> at most once and nowhere but in first position, and every
  other element of it is an element of the input tag list. Both variants, for any sort that
  permutes.
\<close>

theorem latest_at_most_once:
  assumes "permuting srt"
  shows
    "count_list (filterTags_p0 srt tags latestDigest versionDigest) ''latest'' \<le> 1 \<and>
     ''latest'' \<notin> set (tl (filterTags_p0 srt tags latestDigest versionDigest)) \<and>
     set (filterTags_p0 srt tags latestDigest versionDigest) - {''latest''} \<subseteq> set tags \<and>
     count_list (filterTags_main srt tags latestDigest versionDigest) ''latest'' \<le> 1 \<and>
     ''latest'' \<notin> set (tl (filterTags_main srt tags latestDigest versionDigest)) \<and>
     set (filterTags_main srt tags latestDigest versionDigest) - {''latest''} \<subseteq> set tags"
proof -
  have shape: "count_list (pre @ vts) ''latest'' \<le> 1 \<and> ''latest'' \<notin> set (tl (pre @ vts)) \<and>
      set (pre @ vts) - {''latest''} \<subseteq> set tags"
    if "pre = [] \<or> pre = [''latest'']" and "''latest'' \<notin> set vts" and "set vts \<subseteq> set tags"
    for pre vts :: "string list"
    using that by (cases vts) (auto simp: count_list_0_iff dest: list.set_sel(2))
  have p0: "filterTags_p0 srt tags latestDigest versionDigest = [] \<or>
      (\<exists>pre. (pre = [] \<or> pre = [''latest'']) \<and>
        filterTags_p0 srt tags latestDigest versionDigest =
          pre @ take 2 (srt less_p0 (filter (\<lambda>t. t \<noteq> ''latest'') tags)))"
    by (simp add: filterTags_p0_eq)
  have mn: "filterTags_main srt tags latestDigest versionDigest = [] \<or>
      (\<exists>pre. (pre = [] \<or> pre = [''latest'']) \<and>
        filterTags_main srt tags latestDigest versionDigest =
          pre @ take 2 (srt less_main (filter (\<lambda>t. t \<noteq> ''latest'') tags)))"
    by (simp add: filterTags_main_eq)
  have A: "count_list (filterTags_p0 srt tags latestDigest versionDigest) ''latest'' \<le> 1 \<and>
     ''latest'' \<notin> set (tl (filterTags_p0 srt tags latestDigest versionDigest)) \<and>
     set (filterTags_p0 srt tags latestDigest versionDigest) - {''latest''} \<subseteq> set tags"
    using p0
  proof
    assume "filterTags_p0 srt tags latestDigest versionDigest = []"
    then show ?thesis by simp
  next
    assume "\<exists>pre. (pre = [] \<or> pre = [''latest'']) \<and>
        filterTags_p0 srt tags latestDigest versionDigest =
          pre @ take 2 (srt less_p0 (filter (\<lambda>t. t \<noteq> ''latest'') tags))"
    then obtain pre where pre: "pre = [] \<or> pre = [''latest'']"
      and eq: "filterTags_p0 srt tags latestDigest versionDigest =
          pre @ take 2 (srt less_p0 (filter (\<lambda>t. t \<noteq> ''latest'') tags))" by blast
    show ?thesis unfolding eq
      by (rule shape[OF pre latest_not_in_versionTags[OF assms] versionTags_subset[OF assms]])
  qed
  have B: "count_list (filterTags_main srt tags latestDigest versionDigest) ''latest'' \<le> 1 \<and>
     ''latest'' \<notin> set (tl (filterTags_main srt tags latestDigest versionDigest)) \<and>
     set (filterTags_main srt tags latestDigest versionDigest) - {''latest''} \<subseteq> set tags"
    using mn
  proof
    assume "filterTags_main srt tags latestDigest versionDigest = []"
    then show ?thesis by simp
  next
    assume "\<exists>pre. (pre = [] \<or> pre = [''latest'']) \<and>
        filterTags_main srt tags latestDigest versionDigest =
          pre @ take 2 (srt less_main (filter (\<lambda>t. t \<noteq> ''latest'') tags))"
    then obtain pre where pre: "pre = [] \<or> pre = [''latest'']"
      and eq: "filterTags_main srt tags latestDigest versionDigest =
          pre @ take 2 (srt less_main (filter (\<lambda>t. t \<noteq> ''latest'') tags))" by blast
    show ?thesis unfolding eq
      by (rule shape[OF pre latest_not_in_versionTags[OF assms] versionTags_subset[OF assms]])
  qed
  from A B show ?thesis by simp
qed

theorem latest_at_most_once_witness:
  "permuting (insertionSort :: string sorter) \<and>
   filterTags_p0 insertionSort [''latest'', ''1'', ''latest'', ''2'', ''3''] ''d'' ''d'' = [''latest'', ''3'', ''2''] \<and>
   filterTags_main insertionSort [''latest'', ''1'', ''latest'', ''2'', ''3''] ''d'' ''d'' = [''latest'', ''3'', ''2''] \<and>
   count_list (filterTags_p0 insertionSort [''latest'', ''1'', ''latest'', ''2'', ''3''] ''d'' ''d'') ''latest'' \<le> 1 \<and>
   count_list (filterTags_main insertionSort [''latest'', ''1'', ''latest'', ''2'', ''3''] ''d'' ''d'') ''latest'' \<le> 1"
proof -
  have p: "permuting (insertionSort :: string sorter)" by (rule permuting_insertionSort)
  have a: "filterTags_p0 insertionSort [''latest'', ''1'', ''latest'', ''2'', ''3''] ''d'' ''d'' = [''latest'', ''3'', ''2'']"
    by (simp add: filterTags_p0_def insertionSort_def less_p0_def Atoi_def)
  have b: "filterTags_main insertionSort [''latest'', ''1'', ''latest'', ''2'', ''3''] ''d'' ''d'' = [''latest'', ''3'', ''2'']"
    by (simp add: filterTags_main_def insertionSort_def less_main_def Atoi_def)
  from latest_at_most_once[OF p, of "[''latest'', ''1'', ''latest'', ''2'', ''3'']" "''d''" "''d''"] p a b
  show ?thesis by simp
qed


section \<open>The comparators\<close>

lemma less_main_numeric: "Atoi a = Some m \<Longrightarrow> Atoi b = Some n \<Longrightarrow> less_main a b \<longleftrightarrow> m > n"
  by (simp add: less_main_def)

lemma less_p0_numeric: "Atoi a = Some m \<Longrightarrow> Atoi b = Some n \<Longrightarrow> less_p0 a b \<longleftrightarrow> m > n"
  by (simp add: less_p0_def)

lemma less_main_unparsed: "Atoi a = None \<or> Atoi b = None \<Longrightarrow> \<not> less_main a b"
  by (auto simp: less_main_def split: option.splits)

lemma less_p0_unparsed: "Atoi a = None \<or> Atoi b = None \<Longrightarrow> less_p0 a b \<longleftrightarrow> a > b"
  by (auto simp: less_p0_def split: option.splits)

text \<open>
  Claim C3 (as stated, it fails for main.go). The tags \<^verbatim>\<open>"a"\<close> and \<^verbatim>\<open>"b"\<close> do
  not parse, and \<^verbatim>\<open>"b" > "a"\<close> byte-wise, so a comparator that falls back to descending
  string comparison puts \<^verbatim>\<open>"b"\<close> first. main.go's comparator answers false for the
  pair, and its \<^verbatim>\<open>filterTags\<close> leaves \<^verbatim>\<open>["a","b"]\<close> as it is, where part_000 returns
  \<^verbatim>\<open>["b","a"]\<close>.
\<close>

theorem comparator_no_fallback_main:
  "Atoi ''b'' = None \<and> Atoi ''a'' = None \<and> ''b'' > ''a'' \<and> \<not> less_main ''b'' ''a'' \<and>
   filterTags_main insertionSort [''a'', ''b''] [] [] = [''a'', ''b''] \<and>
   filterTags_p0 insertionSort [''a'', ''b''] [] [] = [''b'', ''a'']"
  by (simp add: less_main_def filterTags_main_def filterTags_p0_def less_p0_def insertionSort_def Atoi_def)

text \<open>
  Claim C3, amended. Both comparators order two integer-parseable tags numerically
  descending. For a pair in which at least one tag does not parse, part_000's comparator is
  the byte-wise descending string comparison, and main.go's comparator answers false (it
  has no string fallback). In both variants the version tags \<^verbatim>\<open>["1","2","10"]\<close> sort and
  truncate to \<^verbatim>\<open>["10","2"]\<close>.
\<close>

theorem comparator_by_variant:
  "(Atoi a = Some m \<and> Atoi b = Some n \<longrightarrow>
      (less_p0 a b \<longleftrightarrow> m > n) \<and> (less_main a b \<longleftrightarrow> m > n)) \<and>
   (Atoi a = None \<or> Atoi b = None \<longrightarrow>
      (less_p0 a b \<longleftrightarrow> a > b) \<and> \<not> less_main a b) \<and>
   filterTags_p0 insertionSort [''1'', ''2'', ''10''] latestDigest versionDigest = [''10'', ''2''] \<and>
   filterTags_main insertionSort [''1'', ''2'', ''10''] latestDigest versionDigest = [''10'', ''2'']"
proof (intro conjI impI)
  show "filterTags_p0 insertionSort [''1'', ''2'', ''10''] latestDigest versionDigest = [''10'', ''2'']"
    by (simp add: filterTags_p0_eq insertionSort_def less_p0_def Atoi_def)
  show "filterTags_main insertionSort [''1'', ''2'', ''10''] latestDigest versionDigest = [''10'', ''2'']"
    by (simp add: filterTags_main_eq insertionSort_def less_main_def Atoi_def)
qed (auto simp: less_main_numeric less_p0_numeric less_main_unparsed less_p0_unparsed)

theorem comparator_by_variant_witness:
  "Atoi ''10'' = Some 10 \<and> Atoi ''2'' = Some 2 \<and> less_p0 ''10'' ''2'' \<and> less_main ''10'' ''2'' \<and>
   \<not> ''10'' > ''2'' \<and>
   Atoi ''v2'' = None \<and> less_p0 ''v2'' ''10'' \<and> \<not> less_main ''v2'' ''10'' \<and> ''v2'' > ''10''"
proof -
  have a: "Atoi ''10'' = Some 10" and b: "Atoi ''2'' = Some 2" and c: "Atoi ''v2'' = None"
    by (simp_all add: Atoi_def)
  have d: "''v2'' > ''10''" and e: "\<not> ''10'' > ''2''" by simp_all
  from comparator_by_variant[of "''10''" 10 "''2''" 2 "[]" "[]"] a b
  have f: "less_p0 ''10'' ''2''" and g: "less_main ''10'' ''2''" by simp_all
  from comparator_by_variant[of "''v2''" 0 "''10''" 0 "[]" "[]"] c d
  have h: "less_p0 ''v2'' ''10''" and i: "\<not> less_main ''v2'' ''10''" by simp_all
  from a b c d e f g h i show ?thesis by blast
qed

section \<open>The digest of the highest version\<close>

lemma numericVersions_snoc:
  "numericVersions (vs @ [r]) =
     numericVersions vs @
       (if SearchResult.Version r = ''latest'' then []
        else (case Atoi (SearchResult.Version r) of
                Some n \<Rightarrow> if 0 \<le> n then [(n, SearchResult.SHA256 r)] else []
              | None \<Rightarrow> []))"
  by (simp add: numericVersions_def)

lemma find_snoc_new:
  "\<forall>x\<in>set xs. \<not> P x \<Longrightarrow> P y \<Longrightarrow> find P (xs @ [y]) = Some y"
  by (induction xs) auto

lemma find_snoc_old:
  "find P xs = Some x \<Longrightarrow> find P (xs @ ys) = Some x"
  by (induction xs) (auto split: if_splits)

text \<open>
  The invariant of part_000's loop over a group: either no version tag of non-negative value
  has been met and the variables have their initial values, or \<^verbatim>\<open>highestVersion\<close> is the
  largest such value and \<^verbatim>\<open>versionDigest\<close> the digest of the first record that has it.
\<close>

lemma versionStep_p0_invariant:
  "case foldl versionStep_p0 ([], [], [], -1) vs of
     (tags, ld, vd, hv) \<Rightarrow>
       (numericVersions vs = [] \<and> vd = [] \<and> hv = -1) \<or>
       (numericVersions vs \<noteq> [] \<and> hv = Max (set (map fst (numericVersions vs))) \<and>
        find (\<lambda>(n, d). n = hv) (numericVersions vs) = Some (hv, vd))"
proof (induction vs rule: rev_induct)
  case Nil
  show ?case by (simp add: numericVersions_def)
next
  case (snoc r vs)
  obtain tags ld vd hv where st: "foldl versionStep_p0 ([], [], [], -1) vs = (tags, ld, vd, hv)"
    by (cases "foldl versionStep_p0 ([], [], [], -1) vs") auto
  let ?c = "numericVersions vs"
  from snoc st have inv:
    "(?c = [] \<and> vd = [] \<and> hv = -1) \<or>
     (?c \<noteq> [] \<and> hv = Max (set (map fst ?c)) \<and> find (\<lambda>(n, d). n = hv) ?c = Some (hv, vd))"
    by simp
  have hv_low: "-1 \<le> hv"
  proof -
    { assume ne: "?c \<noteq> []"
      then obtain n d where "(n, d) \<in> set ?c" by (cases ?c) auto
      moreover from this have "0 \<le> n"
        by (auto simp: numericVersions_def split: if_splits option.splits)
      ultimately have "0 \<le> Max (set (map fst ?c))"
        by (metis List.finite_set Max_ge dual_order.trans fst_conv image_eqI list.set_map) }
    with inv show ?thesis by auto
  qed
  show ?case
  proof (cases "SearchResult.Version r = ''latest''")
    case True
    with inv st show ?thesis by (simp add: numericVersions_snoc)
  next
    case nl: False
    show ?thesis
    proof (cases "Atoi (SearchResult.Version r)")
      case None
      with nl inv st show ?thesis by (simp add: numericVersions_snoc)
    next
      case (Some n)
      show ?thesis
      proof (cases "n > hv")
        case True
        then have n0: "0 \<le> n" using hv_low by simp
        have c': "numericVersions (vs @ [r]) = ?c @ [(n, SearchResult.SHA256 r)]"
          using nl Some n0 by (simp add: numericVersions_snoc)
        have below: "\<forall>x\<in>set ?c. fst x < n"
        proof (cases "?c = []")
          case True then show ?thesis by simp
        next
          case False
          with inv have "hv = Max (set (map fst ?c))" by simp
          then have "\<forall>x\<in>set ?c. fst x \<le> hv" by simp
          with True show ?thesis by fastforce
        qed
        have mx: "Max (set (map fst (?c @ [(n, SearchResult.SHA256 r)]))) = n"
        proof (cases "?c = []")
          case True then show ?thesis by simp
        next
          case False
          then have "Max (insert n (fst ` set ?c)) = max n (Max (fst ` set ?c))"
            by (intro Max_insert) auto
          moreover have "Max (fst ` set ?c) \<le> n" using below False by (simp add: less_imp_le)
          ultimately show ?thesis by (simp add: max_def)
        qed
        have fd: "find (\<lambda>(m, d). m = n) (?c @ [(n, SearchResult.SHA256 r)]) = Some (n, SearchResult.SHA256 r)"
          using below by (intro find_snoc_new) auto
        show ?thesis
          using st nl Some True c' mx fd by (simp add: Let_def)
      next
        case False
        show ?thesis
        proof (cases "0 \<le> n")
          case neg: False
          with nl Some False inv st show ?thesis by (simp add: numericVersions_snoc Let_def)
        next
          case True
          with False have "hv \<noteq> -1" by simp
          with inv have ne: "?c \<noteq> []" and hv: "hv = Max (set (map fst ?c))"
            and fd: "find (\<lambda>(n, d). n = hv) ?c = Some (hv, vd)" by auto
          have c': "numericVersions (vs @ [r]) = ?c @ [(n, SearchResult.SHA256 r)]"
            using nl Some True by (simp add: numericVersions_snoc)
          have "Max (insert n (fst ` set ?c)) = max n (Max (fst ` set ?c))"
            using ne by (intro Max_insert) auto
          then have mx: "Max (set (map fst (?c @ [(n, SearchResult.SHA256 r)]))) = hv"
            using False hv by (simp add: max_def)
          have fd': "find (\<lambda>(n, d). n = hv) (?c @ [(n, SearchResult.SHA256 r)]) = Some (hv, vd)"
            by (rule find_snoc_old[OF fd])
          show ?thesis
            using st nl Some False c' mx fd' ne by (simp add: Let_def)
        qed
      qed
    qed
  qed
qed

text \<open>
  part_000 computes the digest of the highest version as the specification words it.
\<close>

lemma versionDigest_p0_highest:
  assumes "groupVars_p0 versions = (tags, latestDigest, versionDigest, highestVersion)"
  shows "versionDigest = digestOfHighest versions"
  using versionStep_p0_invariant[of versions] assms
  by (auto simp: groupVars_p0_def digestOfHighest_def Let_def)

text \<open>
  Claim C2 (main.go departs from it). A group whose only version tag is \<^verbatim>\<open>"0"\<close>: the tag
  parses as the non-negative integer 0 and is the largest, so the digest of the highest
  version is \<^verbatim>\<open>D0\<close>. main.go starts \<^verbatim>\<open>highestVersion\<close> at 0 and tests
  \<^verbatim>\<open>versionNum > highestVersion\<close>, so its \<^verbatim>\<open>versionDigest\<close> stays empty; part_000
  starts at -1 and finds \<^verbatim>\<open>D0\<close>. With a \<^verbatim>\<open>"latest"\<close> record of the same digest,
  main.go therefore leaves \<^verbatim>\<open>"latest"\<close> out.
\<close>

theorem version_zero_never_highest_main:
  "Atoi ''0'' = Some 0 \<and>
   digestOfHighest [\<lparr>SearchResult.Name = ''img'', Version = ''0'', SHA256 = ''D0''\<rparr>] = ''D0'' \<and>
   groupVars_main [toImage \<lparr>SearchResult.Name = ''img'', Version = ''0'', SHA256 = ''D0''\<rparr>]
     = ([''0''], [], [], 0) \<and>
   groupVars_p0 [\<lparr>SearchResult.Name = ''img'', Version = ''0'', SHA256 = ''D0''\<rparr>]
     = ([''0''], [], ''D0'', 0) \<and>
   processImages_main insertionSort
     (map toImage [\<lparr>SearchResult.Name = ''img'', Version = ''latest'', SHA256 = ''D0''\<rparr>,
                   \<lparr>SearchResult.Name = ''img'', Version = ''0'', SHA256 = ''D0''\<rparr>]) ''img''
     = Some [''0'']"
  by (simp add: groupVars_main_def groupVars_p0_def field_def toImage_def Atoi_def Let_def
      digestOfHighest_def numericVersions_def processImages_main_def imageGroups_main_filter
      filterTags_main_eq insertionSort_def)

lemma digestOfHighest_examples:
  "digestOfHighest [\<lparr>SearchResult.Name = ''img'', Version = ''0'', SHA256 = ''D0''\<rparr>] = ''D0''"
  "digestOfHighest [\<lparr>SearchResult.Name = ''img'', Version = ''2'', SHA256 = ''A''\<rparr>,
                    \<lparr>SearchResult.Name = ''img'', Version = ''x9'', SHA256 = ''B''\<rparr>,
                    \<lparr>SearchResult.Name = ''img'', Version = ''02'', SHA256 = ''C''\<rparr>,
                    \<lparr>SearchResult.Name = ''img'', Version = ''-7'', SHA256 = ''E''\<rparr>,
                    \<lparr>SearchResult.Name = ''img'', Version = ''1'', SHA256 = ''F''\<rparr>] = ''A''"
  by (simp_all add: digestOfHighest_def numericVersions_def Atoi_def)


section \<open>The two variants of the tag filter compared\<close>

lemma field_toImage [simp]:
  "field (toImage r) ''name'' = SearchResult.Name r"
  "field (toImage r) ''version'' = SearchResult.Version r"
  "field (toImage r) ''sha256'' = SearchResult.SHA256 r"
  by (simp_all add: field_def toImage_def)

lemma imageGroups_toImage:
  "imageGroups_main (map toImage images) n = map_option (map toImage) (imageGroups_p0 images n)"
  by (simp add: imageGroups_main_filter imageGroups_p0_filter filter_map o_def)

lemma imageGroups_p0_subset: "imageGroups_p0 images n = Some versions \<Longrightarrow> set versions \<subseteq> set images"
  by (auto simp: imageGroups_p0_filter split: if_splits)

text \<open>
  While no version of value 0 is met, the two loops keep the same tags and digests, and
  \<^verbatim>\<open>highestVersion\<close> differs only as long as it has its initial value.
\<close>

lemma versionSteps_agree:
  assumes "\<forall>r\<in>set vs. SearchResult.Version r \<noteq> ''latest'' \<longrightarrow> Atoi (SearchResult.Version r) \<noteq> Some 0"
    and "(h = 0 \<and> h' = -1) \<or> (h = h' \<and> h > 0)"
    and "foldl versionStep_main (t, l, v, h) (map toImage vs) = (t1, l1, v1, h1)"
    and "foldl versionStep_p0 (t, l, v, h') vs = (t2, l2, v2, h2)"
  shows "t1 = t2 \<and> l1 = l2 \<and> v1 = v2"
  using assms
proof (induction vs arbitrary: t l v h h')
  case Nil
  then show ?case by simp
next
  case (Cons r vs)
  show ?case
  proof (cases "SearchResult.Version r = ''latest''")
    case True
    with Cons.prems(3,4) have
      "foldl versionStep_main (t @ [''latest''], SearchResult.SHA256 r, v, h) (map toImage vs) = (t1, l1, v1, h1)"
      "foldl versionStep_p0 (t @ [''latest''], SearchResult.SHA256 r, v, h') vs = (t2, l2, v2, h2)"
      by (simp_all add: Let_def)
    from Cons.IH[OF _ Cons.prems(2) this] Cons.prems(1) show ?thesis by simp
  next
    case nl: False
    show ?thesis
    proof (cases "Atoi (SearchResult.Version r)")
      case None
      with nl Cons.prems(3,4) have
        "foldl versionStep_main (t @ [SearchResult.Version r], l, v, h) (map toImage vs) = (t1, l1, v1, h1)"
        "foldl versionStep_p0 (t @ [SearchResult.Version r], l, v, h') vs = (t2, l2, v2, h2)"
        by (simp_all add: Let_def)
      from Cons.IH[OF _ Cons.prems(2) this] Cons.prems(1) show ?thesis by simp
    next
      case (Some n)
      have n0: "n \<noteq> 0" using Cons.prems(1) nl Some by auto
      have same: "n > h \<longleftrightarrow> n > h'" using Cons.prems(2) n0 by auto
      show ?thesis
      proof (cases "n > h")
        case True
        with same nl Some Cons.prems(3,4) have f:
          "foldl versionStep_main (t @ [SearchResult.Version r], l, SearchResult.SHA256 r, n) (map toImage vs) = (t1, l1, v1, h1)"
          "foldl versionStep_p0 (t @ [SearchResult.Version r], l, SearchResult.SHA256 r, n) vs = (t2, l2, v2, h2)"
          by (simp_all add: Let_def)
        have rel: "(n = 0 \<and> n = -1) \<or> (n = n \<and> n > 0)"
          using True Cons.prems(2) by auto
        from Cons.IH[OF _ rel f] Cons.prems(1) show ?thesis by simp
      next
        case False
        with same nl Some Cons.prems(3,4) have
          "foldl versionStep_main (t @ [SearchResult.Version r], l, v, h) (map toImage vs) = (t1, l1, v1, h1)"
          "foldl versionStep_p0 (t @ [SearchResult.Version r], l, v, h') vs = (t2, l2, v2, h2)"
          by (simp_all add: Let_def)
        from Cons.IH[OF _ Cons.prems(2) this] Cons.prems(1) show ?thesis by simp
      qed
    qed
  qed
qed

lemma groupVars_agree:
  assumes "\<forall>r\<in>set vs. SearchResult.Version r \<noteq> ''latest'' \<longrightarrow> Atoi (SearchResult.Version r) \<noteq> Some 0"
    and "groupVars_main (map toImage vs) = (t1, l1, v1, h1)"
    and "groupVars_p0 vs = (t2, l2, v2, h2)"
  shows "t1 = t2 \<and> l1 = l2 \<and> v1 = v2"
  using versionSteps_agree[OF assms(1), of 0 "-1" "[]" "[]" "[]"] assms(2,3)
  by (simp add: groupVars_main_def groupVars_p0_def)

lemma comparators_agree: "Atoi a \<noteq> None \<Longrightarrow> Atoi b \<noteq> None \<Longrightarrow> less_main a b = less_p0 a b"
  by (auto simp: less_main_def less_p0_def)

lemma filterTags_agree:
  assumes "elementwise srt"
    and "\<forall>t\<in>set tags. t \<noteq> ''latest'' \<longrightarrow> Atoi t \<noteq> None"
  shows "filterTags_main srt tags l v = filterTags_p0 srt tags l v"
proof -
  have "\<forall>a\<in>set (filter (\<lambda>t. t \<noteq> ''latest'') tags).
          \<forall>b\<in>set (filter (\<lambda>t. t \<noteq> ''latest'') tags). less_main a b = less_p0 a b"
    using assms(2) comparators_agree by auto
  with assms(1) have
    "srt less_main (filter (\<lambda>t. t \<noteq> ''latest'') tags) = srt less_p0 (filter (\<lambda>t. t \<noteq> ''latest'') tags)"
    unfolding elementwise_def by blast
  then show ?thesis by (simp add: filterTags_main_eq filterTags_p0_eq)
qed


text \<open>
  Claim C9 (as stated, it fails). Three record sequences on which the two variants differ:
  a group with nothing but a \<^verbatim>\<open>"latest"\<close> record (main.go has no entry for the image,
  part_000 has an entry with no tags); a \<^verbatim>\<open>"latest"\<close> record with the digest of version
  \<^verbatim>\<open>"0"\<close>; two version tags that do not parse.
\<close>

theorem variants_differ:
  "processImages_main insertionSort
      (map toImage [\<lparr>SearchResult.Name = ''img'', Version = ''latest'', SHA256 = ''D''\<rparr>]) ''img'' = None \<and>
   processImages_p0 insertionSort
      [\<lparr>SearchResult.Name = ''img'', Version = ''latest'', SHA256 = ''D''\<rparr>] ''img'' = Some [] \<and>
   processImages_main insertionSort
      (map toImage [\<lparr>SearchResult.Name = ''img'', Version = ''latest'', SHA256 = ''D''\<rparr>])
    \<noteq> processImages_p0 insertionSort
      [\<lparr>SearchResult.Name = ''img'', Version = ''latest'', SHA256 = ''D''\<rparr>] \<and>
   processImages_main insertionSort
      (map toImage [\<lparr>SearchResult.Name = ''img'', Version = ''latest'', SHA256 = ''D''\<rparr>,
                    \<lparr>SearchResult.Name = ''img'', Version = ''0'', SHA256 = ''D''\<rparr>]) ''img'' = Some [''0''] \<and>
   processImages_p0 insertionSort
      [\<lparr>SearchResult.Name = ''img'', Version = ''latest'', SHA256 = ''D''\<rparr>,
       \<lparr>SearchResult.Name = ''img'', Version = ''0'', SHA256 = ''D''\<rparr>] ''img'' = Some [''latest'', ''0''] \<and>
   processImages_main insertionSort
      (map toImage [\<lparr>SearchResult.Name = ''img'', Version = ''a'', SHA256 = ''D''\<rparr>,
                    \<lparr>SearchResult.Name = ''img'', Version = ''b'', SHA256 = ''E''\<rparr>]) ''img'' = Some [''a'', ''b''] \<and>
   processImages_p0 insertionSort
      [\<lparr>SearchResult.Name = ''img'', Version = ''a'', SHA256 = ''D''\<rparr>,
       \<lparr>SearchResult.Name = ''img'', Version = ''b'', SHA256 = ''E''\<rparr>] ''img'' = Some [''b'', ''a'']"
proof -
  have a: "processImages_main insertionSort
      (map toImage [\<lparr>SearchResult.Name = ''img'', Version = ''latest'', SHA256 = ''D''\<rparr>]) ''img'' = None"
    by (simp add: processImages_main_def imageGroups_main_filter groupVars_main_def
        filterTags_main_eq permuting_insertionSort[unfolded permuting_def] insertionSort_def)
  have b: "processImages_p0 insertionSort
      [\<lparr>SearchResult.Name = ''img'', Version = ''latest'', SHA256 = ''D''\<rparr>] ''img'' = Some []"
    by (simp add: processImages_p0_def imageGroups_p0_filter groupVars_p0_def
        filterTags_p0_eq insertionSort_def)
  have c: "processImages_main insertionSort
      (map toImage [\<lparr>SearchResult.Name = ''img'', Version = ''latest'', SHA256 = ''D''\<rparr>])
    \<noteq> processImages_p0 insertionSort
      [\<lparr>SearchResult.Name = ''img'', Version = ''latest'', SHA256 = ''D''\<rparr>]"
    using a b by (metis option.distinct(1))
  have d: "processImages_main insertionSort
      (map toImage [\<lparr>SearchResult.Name = ''img'', Version = ''latest'', SHA256 = ''D''\<rparr>,
                    \<lparr>SearchResult.Name = ''img'', Version = ''0'', SHA256 = ''D''\<rparr>]) ''img'' = Some [''0'']"
    by (simp add: processImages_main_def imageGroups_main_filter groupVars_main_def
        filterTags_main_eq insertionSort_def Atoi_def Let_def)
  have e: "processImages_p0 insertionSort
      [\<lparr>SearchResult.Name = ''img'', Version = ''latest'', SHA256 = ''D''\<rparr>,
       \<lparr>SearchResult.Name = ''img'', Version = ''0'', SHA256 = ''D''\<rparr>] ''img'' = Some [''latest'', ''0'']"
    by (simp add: processImages_p0_def imageGroups_p0_filter groupVars_p0_def
        filterTags_p0_eq insertionSort_def Atoi_def Let_def)
  have f: "processImages_main insertionSort
      (map toImage [\<lparr>SearchResult.Name = ''img'', Version = ''a'', SHA256 = ''D''\<rparr>,
                    \<lparr>SearchResult.Name = ''img'', Version = ''b'', SHA256 = ''E''\<rparr>]) ''img'' = Some [''a'', ''b'']"
    by (simp add: processImages_main_def imageGroups_main_filter groupVars_main_def
        filterTags_main_eq insertionSort_def less_main_def Atoi_def Let_def)
  have g: "processImages_p0 insertionSort
      [\<lparr>SearchResult.Name = ''img'', Version = ''a'', SHA256 = ''D''\<rparr>,
       \<lparr>SearchResult.Name = ''img'', Version = ''b'', SHA256 = ''E''\<rparr>] ''img'' = Some [''b'', ''a'']"
    by (simp add: processImages_p0_def imageGroups_p0_filter groupVars_p0_def
        filterTags_p0_eq insertionSort_def less_p0_def Atoi_def Let_def)
  from a b c d e f g show ?thesis by blast
qed

text \<open>
  Claim C9, amended. For every sequence of search records in which every version other than
  \<^verbatim>\<open>"latest"\<close> parses as an integer other than 0, main.go's result is part_000's
  result without the entries of empty tag lists. (For any sort whose result depends on the
  comparator only through the elements of the slice.)
\<close>

theorem variants_agree:
  assumes "elementwise srt"
    and "\<forall>r\<in>set images. SearchResult.Version r \<noteq> ''latest'' \<longrightarrow>
           (\<exists>n. Atoi (SearchResult.Version r) = Some n \<and> n \<noteq> 0)"
  shows "processImages_main srt (map toImage images) = dropEmpty (processImages_p0 srt images)"
proof
  fix name
  show "processImages_main srt (map toImage images) name = dropEmpty (processImages_p0 srt images) name"
  proof (cases "imageGroups_p0 images name")
    case None
    then show ?thesis
      by (simp add: processImages_main_def processImages_p0_def dropEmpty_def imageGroups_toImage)
  next
    case (Some versions)
    obtain t1 l1 v1 h1 where gm: "groupVars_main (map toImage versions) = (t1, l1, v1, h1)"
      by (cases "groupVars_main (map toImage versions)") auto
    obtain t2 l2 v2 h2 where gp: "groupVars_p0 versions = (t2, l2, v2, h2)"
      by (cases "groupVars_p0 versions") auto
    have sub: "set versions \<subseteq> set images" by (rule imageGroups_p0_subset[OF Some])
    have nz: "\<forall>r\<in>set versions. SearchResult.Version r \<noteq> ''latest'' \<longrightarrow> Atoi (SearchResult.Version r) \<noteq> Some 0"
      using assms(2) sub by fastforce
    from groupVars_agree[OF nz gm gp] have eq: "t1 = t2" "l1 = l2" "v1 = v2" by simp_all
    have t2: "t2 = map SearchResult.Version versions" by (rule groupVars_p0_tags[OF gp])
    have parsed: "\<forall>t\<in>set t2. t \<noteq> ''latest'' \<longrightarrow> Atoi t \<noteq> None"
      using assms(2) sub unfolding t2 by fastforce
    have ft: "filterTags_main srt t2 l2 v2 = filterTags_p0 srt t2 l2 v2"
      by (rule filterTags_agree[OF assms(1) parsed])
    show ?thesis
      using Some gm gp ft
      by (simp add: processImages_main_def processImages_p0_def dropEmpty_def imageGroups_toImage eq Let_def)
  qed
qed

theorem variants_agree_witness:
  "elementwise (insertionSort :: string sorter) \<and>
   processImages_main insertionSort (map toImage sampleRecords) = dropEmpty (processImages_p0 insertionSort sampleRecords) \<and>
   processImages_p0 insertionSort sampleRecords ''img'' = Some [''latest'', ''2'', ''1''] \<and>
   dropEmpty (processImages_p0 insertionSort sampleRecords) ''img'' = Some [''latest'', ''2'', ''1'']"
proof -
  have e: "elementwise (insertionSort :: string sorter)" by (rule elementwise_insertionSort)
  have h: "\<forall>r\<in>set sampleRecords. SearchResult.Version r \<noteq> ''latest'' \<longrightarrow>
           (\<exists>n. Atoi (SearchResult.Version r) = Some n \<and> n \<noteq> 0)"
    by (simp add: sampleRecords_def Atoi_def)
  have p: "processImages_p0 insertionSort sampleRecords ''img'' = Some [''latest'', ''2'', ''1'']"
    by (simp add: sampleRecords_def processImages_p0_def imageGroups_p0_filter groupVars_p0_def
        filterTags_p0_eq insertionSort_def less_p0_def Atoi_def Let_def)
  have d: "dropEmpty (processImages_p0 insertionSort sampleRecords) ''img'' = Some [''latest'', ''2'', ''1'']"
    by (simp add: dropEmpty_def p)
  from variants_agree[OF e h] e p d show ?thesis by blast
qed



section \<open>First occurrences\<close>

lemma firstOccurrences_Nil [simp]: "firstOccurrences key [] = []"
  by (simp add: firstOccurrences_def)

lemma firstOccurrences_snoc:
  "firstOccurrences key (xs @ [x]) =
     firstOccurrences key xs @ (if key x \<in> set (map key xs) then [] else [x])"
proof -
  define P where "P = (\<lambda>i. key (xs ! i) \<notin> set (map key (take i xs)))"
  define P' where "P' = (\<lambda>i. key ((xs @ [x]) ! i) \<notin> set (map key (take i (xs @ [x]))))"
  have f: "filter P' [0..<length xs] = filter P [0..<length xs]"
    by (rule filter_cong) (auto simp: P_def P'_def nth_append)
  have m: "map (\<lambda>i. (xs @ [x]) ! i) (filter P [0..<length xs])
         = map (\<lambda>i. xs ! i) (filter P [0..<length xs])"
    by (rule map_cong) (auto simp: nth_append)
  have l: "P' (length xs) \<longleftrightarrow> key x \<notin> set (map key xs)"
    by (simp add: P'_def)
  have "firstOccurrences key (xs @ [x]) =
      map (\<lambda>i. (xs @ [x]) ! i) (filter P' ([0..<length xs] @ [length xs]))"
    by (simp add: firstOccurrences_def P'_def)
  also have "\<dots> = map (\<lambda>i. (xs @ [x]) ! i) (filter P' [0..<length xs])
      @ (if P' (length xs) then [x] else [])"
    by simp
  also have "\<dots> = map (\<lambda>i. xs ! i) (filter P [0..<length xs])
      @ (if key x \<in> set (map key xs) then [] else [x])"
    unfolding f m l by simp
  finally show ?thesis by (simp add: firstOccurrences_def P_def)
qed

lemma set_firstOccurrences_keys:
  "set (map key (firstOccurrences key xs)) = set (map key xs)"
  by (induction xs rule: rev_induct) (auto simp: firstOccurrences_snoc)

lemma distinct_firstOccurrences_keys:
  "distinct (map key (firstOccurrences key xs))"
proof (induction xs rule: rev_induct)
  case Nil
  show ?case by simp
next
  case (snoc x xs)
  have "key x \<notin> set (map key xs) \<Longrightarrow> key x \<notin> set (map key (firstOccurrences key xs))"
    using set_firstOccurrences_keys[of key xs] by simp
  with snoc show ?case by (auto simp: firstOccurrences_snoc)
qed

lemma firstOccurrences_cong:
  assumes "\<forall>x\<in>set xs. \<forall>y\<in>set xs. key x = key y \<longleftrightarrow> key' x = key' y"
  shows "firstOccurrences key xs = firstOccurrences key' xs"
  using assms
proof (induction xs rule: rev_induct)
  case Nil
  show ?case by simp
next
  case (snoc x xs)
  have "firstOccurrences key xs = firstOccurrences key' xs"
    using snoc by simp
  moreover have "key x \<in> set (map key xs) \<longleftrightarrow> key' x \<in> set (map key' xs)"
    using snoc.prems by (auto simp: image_iff) 
  ultimately show ?case by (simp add: firstOccurrences_snoc)
qed

section \<open>The key of an entry\<close>

text \<open>When the names hold no colon, the key \<^verbatim>\<open>name:version\<close> determines the pair.\<close>

lemma colon_key_inject:
  assumes "CHR '':'' \<notin> set n" and "CHR '':'' \<notin> set n'"
    and "n @ '':'' @ v = n' @ '':'' @ v'"
  shows "n = n' \<and> v = v'"
  using assms
proof (induction n arbitrary: n')
  case Nil
  then show ?case by (cases n') auto
next
  case (Cons a n)
  then show ?case by (cases n') auto
qed


section \<open>part\_000: the aggregate after a list of entries\<close>

lemma addComponent_p0_eq:
  "addComponent_p0 (seen, matching) c =
     (if imageKey_p0 c \<in> seen then (seen, matching)
      else (insert (imageKey_p0 c) seen, matching @ [toResult_p0 c]))"
  by (cases "Assets c")
     (simp_all add: imageKey_p0_def toResult_p0_def firstAssetDigest_p0_def Let_def)

declare addComponent_p0.simps [simp del]

lemma aggregated_p0_start: "aggregated_p0 [] ({}, [])"
  by (simp add: aggregated_p0_def)

lemma aggregated_p0_step:
  "aggregated_p0 es st \<Longrightarrow> aggregated_p0 (es @ [c]) (addComponent_p0 st c)"
  by (cases st) (auto simp: aggregated_p0_def addComponent_p0_eq firstOccurrences_snoc)

lemma aggregated_p0_foldl:
  "aggregated_p0 es st \<Longrightarrow> aggregated_p0 (es @ cs) (foldl addComponent_p0 st cs)"
proof (induction cs arbitrary: es st)
  case Nil
  then show ?case by simp
next
  case (Cons c cs)
  from Cons.IH[OF aggregated_p0_step[OF Cons.prems, of c]] show ?case by simp
qed

section \<open>part\_000: the loops on complete runs of pages\<close>

lemma pageLoop_p0_run:
  "lastPageOnly_p0 run \<Longrightarrow>
   pageLoop_p0 st (map Inr run @ rest) =
     Some (Inr (foldl addComponent_p0 st (concat (map Items run))), rest)"
proof (induction run arbitrary: st rule: lastPageOnly_p0.induct)
  case 1
  then show ?case by simp
next
  case (2 p)
  then show ?case by simp
next
  case (3 p q ps)
  from "3.prems" have tok: "ContinuationToken p \<noteq> []" and more: "lastPageOnly_p0 (q # ps)"
    by simp_all
  show ?case
    using tok "3.IH"[OF more, of "foldl addComponent_p0 st (Items p)"] by simp
qed

lemma patternLoop_p0_runs:
  "length runs = length patterns \<Longrightarrow> list_all lastPageOnly_p0 runs \<Longrightarrow>
   patternLoop_p0 st patterns (map Inr (concat runs) @ rest) =
     Some (Inr (foldl addComponent_p0 st (concat (map Items (concat runs)))), rest)"
proof (induction patterns arbitrary: runs st)
  case Nil
  then show ?case by simp
next
  case (Cons pattern patterns)
  then obtain run runs' where runs: "runs = run # runs'" by (cases runs) auto
  with Cons.prems have len: "length runs' = length patterns"
    and r: "lastPageOnly_p0 run" and rs: "list_all lastPageOnly_p0 runs'" by simp_all
  have "pageLoop_p0 st (map Inr run @ (map Inr (concat runs') @ rest)) =
      Some (Inr (foldl addComponent_p0 st (concat (map Items run))), map Inr (concat runs') @ rest)"
    by (rule pageLoop_p0_run[OF r])
  then show ?case
    using Cons.IH[OF len rs, of "foldl addComponent_p0 st (concat (map Items run))"]
    by (simp add: runs)
qed

lemma SearchImages_p0_runs:
  assumes "length runs = length patterns" and "list_all lastPageOnly_p0 runs"
  shows "SearchImages_p0 patterns (map Inr (concat runs) @ rest) =
     Some ((map toResult_p0 (firstOccurrences imageKey_p0 (concat (map Items (concat runs)))), None), rest)"
proof -
  obtain seen matching where st:
    "foldl addComponent_p0 ({}, []) (concat (map Items (concat runs))) = (seen, matching)"
    by (cases "foldl addComponent_p0 ({}, []) (concat (map Items (concat runs)))") auto
  from aggregated_p0_foldl[OF aggregated_p0_start, of "concat (map Items (concat runs))"] st
  have "matching = map toResult_p0 (firstOccurrences imageKey_p0 (concat (map Items (concat runs))))"
    by (simp add: aggregated_p0_def)
  with patternLoop_p0_runs[OF assms, of "({}, [])" rest] st show ?thesis
    by (simp add: SearchImages_p0_def)
qed

section \<open>part\_000: a failed request\<close>

lemma pageLoop_p0_more:
  "pageLoop_p0 st pre = Some (r, w) \<Longrightarrow> pageLoop_p0 st (pre @ ext) = Some (r, w @ ext)"
  by (induction st pre rule: pageLoop_p0.induct) (auto simp: Let_def split: if_splits)

lemma pageLoop_p0_fails:
  "pageLoop_p0 st pre = None \<Longrightarrow> pageLoop_p0 st (pre @ Inl err # rest) = Some (Inl err, rest)"
  by (induction st pre rule: pageLoop_p0.induct) (auto simp: Let_def split: if_splits)

lemma patternLoop_p0_fails:
  "patternLoop_p0 st patterns pre = None \<Longrightarrow>
   patternLoop_p0 st patterns (pre @ Inl err # rest) = Some (Inl err, rest)"
proof (induction patterns arbitrary: st pre)
  case Nil
  then show ?case by simp
next
  case (Cons pattern patterns)
  show ?case
  proof (cases "pageLoop_p0 st pre")
    case None
    from pageLoop_p0_fails[OF this] show ?thesis by simp
  next
    case (Some res)
    obtain r w where res: "res = (r, w)" by (cases res)
    from Some res have ext: "pageLoop_p0 st (pre @ Inl err # rest) = Some (r, w @ Inl err # rest)"
      by (simp add: pageLoop_p0_more)
    show ?thesis
    proof (cases r)
      case (Inl e)
      with Cons.prems Some res show ?thesis by simp
    next
      case (Inr st')
      with Cons.prems Some res have "patternLoop_p0 st' patterns w = None" by simp
      from Cons.IH[OF this] ext Inr show ?thesis by simp
    qed
  qed
qed

lemma SearchImages_p0_fails:
  "SearchImages_p0 patterns pre = None \<Longrightarrow>
   SearchImages_p0 patterns (pre @ Inl err # rest) = Some (([], Some err), rest)"
  by (auto simp: SearchImages_p0_def patternLoop_p0_fails split: option.splits sum.splits)


section \<open>main.go: the aggregate after a list of items\<close>

lemma addItem_main_object:
  "addItem_main (seen, matching) (JObject c) =
     (if imageKey_main c \<in> seen then (seen, matching)
      else (insert (imageKey_main c) seen, matching @ [toImage_main c]))"
  by (cases "asArray (map_of c ''assets'')")
     (simp_all add: imageKey_main_def toImage_main_def firstAssetDigest_main_def name_main_def
        version_main_def Let_def)

lemma addItem_main_other:
  "components_main [item] = [] \<Longrightarrow> addItem_main st item = st"
  by (cases st; cases item) (simp_all add: components_main_def)

declare addItem_main.simps [simp del]

lemma components_main_Cons:
  "components_main (item # items) = components_main [item] @ components_main items"
  by (simp add: components_main_def)

lemma aggregated_main_start: "aggregated_main [] ({}, [])"
  by (simp add: aggregated_main_def)

lemma aggregated_main_step:
  assumes "aggregated_main es st"
  shows "aggregated_main (es @ components_main [item]) (addItem_main st item)"
proof (cases item)
  case (JObject c)
  with assms show ?thesis
    by (cases st)
       (auto simp: aggregated_main_def addItem_main_object firstOccurrences_snoc components_main_def)
qed (use assms in \<open>simp_all add: addItem_main_other components_main_def\<close>)

lemma aggregated_main_foldl:
  "aggregated_main es st \<Longrightarrow> aggregated_main (es @ components_main items) (foldl addItem_main st items)"
proof (induction items arbitrary: es st)
  case Nil
  then show ?case by (simp add: components_main_def)
next
  case (Cons item items)
  from Cons.IH[OF aggregated_main_step[OF Cons.prems, of item]] show ?case
    by (simp add: components_main_Cons[of item items])
qed

section \<open>main.go: the loops on complete runs of pages\<close>

lemma pageLoop_main_page:
  "pageLoop_main st (Inr data # world) =
     (case items_main data of
        None \<Rightarrow> Some (Inl InvalidResponseFormat, world)
      | Some items \<Rightarrow>
          if token_main data \<noteq> [] then pageLoop_main (foldl addItem_main st items) world
          else Some (Inr (foldl addItem_main st items), world))"
  by (auto simp: items_main_def token_main_def asString_def Let_def split: option.splits json.splits)

declare pageLoop_main.simps(3) [simp del]

lemma items_main_Some: "items_main p = Some items \<Longrightarrow> asArray (map_of p ''items'') = items"
  by (auto simp: items_main_def asArray_def split: option.splits json.splits)

lemma pageLoop_main_run:
  "lastPageOnly_main run \<Longrightarrow>
   pageLoop_main st (map Inr run @ rest) =
     Some (Inr (foldl addItem_main st (concat (map (\<lambda>p. asArray (map_of p ''items'')) run))), rest)"
proof (induction run arbitrary: st rule: lastPageOnly_main.induct)
  case 1
  then show ?case by simp
next
  case (2 p)
  then show ?case by (auto simp: pageLoop_main_page items_main_Some)
next
  case (3 p q ps)
  from "3.prems" obtain items where it: "items_main p = Some items"
    and tok: "token_main p \<noteq> []" and more: "lastPageOnly_main (q # ps)"
    by auto
  show ?case
    using it tok "3.IH"[OF more, of "foldl addItem_main st items"]
    by (simp add: pageLoop_main_page items_main_Some)
qed

lemma patternLoop_main_runs:
  "length runs = length patterns \<Longrightarrow> list_all lastPageOnly_main runs \<Longrightarrow>
   patternLoop_main st patterns (map Inr (concat runs) @ rest) =
     Some (Inr (foldl addItem_main st
                  (concat (map (\<lambda>p. asArray (map_of p ''items'')) (concat runs)))), rest)"
proof (induction patterns arbitrary: runs st)
  case Nil
  then show ?case by simp
next
  case (Cons pattern patterns)
  then obtain run runs' where runs: "runs = run # runs'" by (cases runs) auto
  with Cons.prems have len: "length runs' = length patterns"
    and r: "lastPageOnly_main run" and rs: "list_all lastPageOnly_main runs'" by simp_all
  have "pageLoop_main st (map Inr run @ (map Inr (concat runs') @ rest)) =
      Some (Inr (foldl addItem_main st (concat (map (\<lambda>p. asArray (map_of p ''items'')) run))),
            map Inr (concat runs') @ rest)"
    by (rule pageLoop_main_run[OF r])
  then show ?case
    using Cons.IH[OF len rs,
        of "foldl addItem_main st (concat (map (\<lambda>p. asArray (map_of p ''items'')) run))"]
    by (simp add: runs)
qed

lemma patternLoop_main_aggregate:
  assumes "length runs = length patterns" and "list_all lastPageOnly_main runs"
  shows "patternLoop_main ({}, []) patterns (map Inr (concat runs) @ rest) =
     Some (Inr (set (map imageKey_main (entries_main (concat runs))),
                map toImage_main (firstOccurrences imageKey_main (entries_main (concat runs)))), rest)"
proof -
  let ?items = "concat (map (\<lambda>p. asArray (map_of p ''items'')) (concat runs))"
  from aggregated_main_foldl[OF aggregated_main_start, of ?items]
  have "foldl addItem_main ({}, []) ?items =
      (set (map imageKey_main (entries_main (concat runs))),
       map toImage_main (firstOccurrences imageKey_main (entries_main (concat runs))))"
    by (cases "foldl addItem_main ({}, []) ?items") (simp add: aggregated_main_def entries_main_def)
  with patternLoop_main_runs[OF assms, of "({}, [])" rest] show ?thesis by simp
qed

section \<open>main.go: a failed request or a malformed page\<close>

lemma pageLoop_main_more:
  "pageLoop_main st pre = Some (r, w) \<Longrightarrow> pageLoop_main st (pre @ ext) = Some (r, w @ ext)"
proof (induction pre arbitrary: st)
  case Nil
  then show ?case by simp
next
  case (Cons x pre)
  show ?case
  proof (cases x)
    case (Inl err)
    with Cons.prems show ?thesis by auto
  next
    case (Inr data)
    with Cons show ?thesis
      by (auto simp: pageLoop_main_page split: option.splits if_splits)
  qed
qed

lemma pageLoop_main_fails:
  "pageLoop_main st pre = None \<Longrightarrow> replyError_main x = Some e \<Longrightarrow>
   pageLoop_main st (pre @ x # rest) = Some (Inl e, rest)"
proof (induction pre arbitrary: st)
  case Nil
  then show ?case
    by (cases x) (auto simp: replyError_main_def pageLoop_main_page split: if_splits)
next
  case (Cons y pre)
  show ?case
  proof (cases y)
    case (Inl err)
    with Cons.prems show ?thesis by auto
  next
    case (Inr data)
    with Cons show ?thesis
      by (auto simp: pageLoop_main_page split: option.splits if_splits)
  qed
qed

lemma patternLoop_main_fails:
  "patternLoop_main st patterns pre = None \<Longrightarrow> replyError_main x = Some e \<Longrightarrow>
   patternLoop_main st patterns (pre @ x # rest) = Some (Inl e, rest)"
proof (induction patterns arbitrary: st pre)
  case Nil
  then show ?case by simp
next
  case (Cons pattern patterns)
  show ?case
  proof (cases "pageLoop_main st pre")
    case None
    from pageLoop_main_fails[OF this Cons.prems(2)] show ?thesis by simp
  next
    case (Some res)
    obtain r w where res: "res = (r, w)" by (cases res)
    from Some res have ext: "pageLoop_main st (pre @ x # rest) = Some (r, w @ x # rest)"
      by (simp add: pageLoop_main_more)
    show ?thesis
    proof (cases r)
      case (Inl e')
      with Cons.prems Some res show ?thesis by simp
    next
      case (Inr st')
      with Cons.prems Some res have "patternLoop_main st' patterns w = None" by simp
      from Cons.IH[OF this Cons.prems(2)] ext Inr show ?thesis by simp
    qed
  qed
qed

lemma SearchImages_main_fails:
  "SearchImages_main srt patterns pre = None \<Longrightarrow> replyError_main x = Some e \<Longrightarrow>
   SearchImages_main srt patterns (pre @ x # rest) = Some ((Map.empty, Some e), rest)"
  by (auto simp: SearchImages_main_def patternLoop_main_fails split: option.splits sum.splits)


section \<open>Properties of the aggregator\<close>

lemma imageKey_p0_pair:
  assumes "CHR '':'' \<notin> set (Component.Name x)" and "CHR '':'' \<notin> set (Component.Name y)"
  shows "imageKey_p0 x = imageKey_p0 y \<longleftrightarrow> pair_p0 x = pair_p0 y"
  using colon_key_inject[OF assms] by (auto simp: imageKey_p0_def pair_p0_def)

lemma imageKey_main_pair:
  assumes "CHR '':'' \<notin> set (name_main x)" and "CHR '':'' \<notin> set (name_main y)"
  shows "imageKey_main x = imageKey_main y \<longleftrightarrow> pair_main x = pair_main y"
  using colon_key_inject[OF assms] by (auto simp: imageKey_main_def pair_main_def)

text \<open>
  Claim C5 (as stated, it fails). The aggregator keys an entry by the string
  \<^verbatim>\<open>name + ":" + version\<close>. The entries (\<^verbatim>\<open>a:b\<close>, \<^verbatim>\<open>c\<close>) and (\<^verbatim>\<open>a\<close>,
  \<^verbatim>\<open>b:c\<close>) are different pairs with the same key \<^verbatim>\<open>a:b:c\<close>: the second is dropped
  although its pair has not been seen. Both variants.
\<close>

theorem colliding_keys_dropped:
  "SearchImages_p0 [''a*'']
     [Inr \<lparr>Items = [sampleComponent ''a:b'' ''c'' [''D1''], sampleComponent ''a'' ''b:c'' [''D2'']],
           ContinuationToken = []\<rparr>]
     = Some (([\<lparr>SearchResult.Name = ''a:b'', Version = ''c'', SHA256 = ''D1''\<rparr>], None), []) \<and>
   pair_p0 (sampleComponent ''a'' ''b:c'' [''D2'']) \<noteq> pair_p0 (sampleComponent ''a:b'' ''c'' [''D1'']) \<and>
   imageKey_p0 (sampleComponent ''a'' ''b:c'' [''D2'']) = imageKey_p0 (sampleComponent ''a:b'' ''c'' [''D1'']) \<and>
   patternLoop_main ({}, []) [''a*'']
     [Inr [(''items'', JArray [sampleItem ''a:b'' ''c'' [''D1''], sampleItem ''a'' ''b:c'' [''D2'']])]]
     = Some (Inr ({''a:b:c''}, [[''name'' \<mapsto> ''a:b'', ''version'' \<mapsto> ''c'', ''sha256'' \<mapsto> ''D1'']]), [])"
  by (simp add: SearchImages_p0_def sampleComponent_def addComponent_p0.simps pair_p0_def imageKey_p0_def
      sampleItem_def sampleFields_def addItem_main.simps pageLoop_main.simps asString_def asArray_def
      asObject_def Let_def)

text \<open>
  Claim C5, amended. For every sequence of pages across all patterns of one invocation (one
  complete run of pages per pattern, every request succeeding), the aggregator drops an
  entry exactly when an earlier entry of the invocation, of the same or of another pattern,
  has the same key \<^verbatim>\<open>name:version\<close>, and otherwise appends a record for it, in the order
  first encountered. When no entry name holds a colon, the key stands for the (name, version)
  pair: the entries kept are the first occurrences of their pairs, no pair is kept twice and
  every pair of the input is kept. For main.go the entries are the items that are JSON
  objects, and the records are the list its loops hand to \<^verbatim>\<open>processImages\<close>.
\<close>

theorem first_seen_records:
  "(length runs = length patterns \<and> list_all lastPageOnly_p0 runs \<longrightarrow>
      SearchImages_p0 patterns (map Inr (concat runs) @ rest) =
        Some ((map toResult_p0 (firstOccurrences imageKey_p0 (concat (map Items (concat runs)))), None),
              rest) \<and>
      ((\<forall>c\<in>set (concat (map Items (concat runs))). CHR '':'' \<notin> set (Component.Name c)) \<longrightarrow>
         firstOccurrences imageKey_p0 (concat (map Items (concat runs))) =
           firstOccurrences pair_p0 (concat (map Items (concat runs))) \<and>
         distinct (map pair_p0 (firstOccurrences imageKey_p0 (concat (map Items (concat runs))))) \<and>
         set (map pair_p0 (firstOccurrences imageKey_p0 (concat (map Items (concat runs))))) =
           set (map pair_p0 (concat (map Items (concat runs)))))) \<and>
   (length runs' = length patterns \<and> list_all lastPageOnly_main runs' \<longrightarrow>
      patternLoop_main ({}, []) patterns (map Inr (concat runs') @ rest') =
        Some (Inr (set (map imageKey_main (entries_main (concat runs'))),
                   map toImage_main (firstOccurrences imageKey_main (entries_main (concat runs')))),
              rest') \<and>
      ((\<forall>c\<in>set (entries_main (concat runs')). CHR '':'' \<notin> set (name_main c)) \<longrightarrow>
         firstOccurrences imageKey_main (entries_main (concat runs')) =
           firstOccurrences pair_main (entries_main (concat runs')) \<and>
         distinct (map pair_main (firstOccurrences imageKey_main (entries_main (concat runs')))) \<and>
         set (map pair_main (firstOccurrences imageKey_main (entries_main (concat runs')))) =
           set (map pair_main (entries_main (concat runs')))))"
proof (intro conjI impI; (elim conjE)?)
  let ?es = "concat (map Items (concat runs))"
  let ?es' = "entries_main (concat runs')"
  {
    assume "length runs = length patterns" "list_all lastPageOnly_p0 runs"
    then show "SearchImages_p0 patterns (map Inr (concat runs) @ rest) =
        Some ((map toResult_p0 (firstOccurrences imageKey_p0 ?es), None), rest)"
      by (rule SearchImages_p0_runs)
  }
  {
    assume "\<forall>c\<in>set ?es. CHR '':'' \<notin> set (Component.Name c)"
    then have "\<forall>x\<in>set ?es. \<forall>y\<in>set ?es. imageKey_p0 x = imageKey_p0 y \<longleftrightarrow> pair_p0 x = pair_p0 y"
      using imageKey_p0_pair by blast
    then show eq: "firstOccurrences imageKey_p0 ?es = firstOccurrences pair_p0 ?es"
      by (rule firstOccurrences_cong)
    show "distinct (map pair_p0 (firstOccurrences imageKey_p0 ?es))"
      unfolding eq by (rule distinct_firstOccurrences_keys)
    show "set (map pair_p0 (firstOccurrences imageKey_p0 ?es)) = set (map pair_p0 ?es)"
      unfolding eq by (rule set_firstOccurrences_keys)
  }
  {
    assume "length runs' = length patterns" "list_all lastPageOnly_main runs'"
    then show "patternLoop_main ({}, []) patterns (map Inr (concat runs') @ rest') =
        Some (Inr (set (map imageKey_main ?es'),
                   map toImage_main (firstOccurrences imageKey_main ?es')), rest')"
      by (rule patternLoop_main_aggregate)
  }
  {
    assume "\<forall>c\<in>set ?es'. CHR '':'' \<notin> set (name_main c)"
    then have "\<forall>x\<in>set ?es'. \<forall>y\<in>set ?es'. imageKey_main x = imageKey_main y \<longleftrightarrow> pair_main x = pair_main y"
      using imageKey_main_pair by blast
    then show eq: "firstOccurrences imageKey_main ?es' = firstOccurrences pair_main ?es'"
      by (rule firstOccurrences_cong)
    show "distinct (map pair_main (firstOccurrences imageKey_main ?es'))"
      unfolding eq by (rule distinct_firstOccurrences_keys)
    show "set (map pair_main (firstOccurrences imageKey_main ?es')) = set (map pair_main ?es')"
      unfolding eq by (rule set_firstOccurrences_keys)
  }
qed

theorem first_seen_records_witness:
  "SearchImages_p0 [''foo*'', ''foo-bar*''] (map Inr (concat samplePages_p0)) =
     Some (([\<lparr>SearchResult.Name = ''foo'', Version = ''1'', SHA256 = ''A''\<rparr>,
             \<lparr>SearchResult.Name = ''foo-bar'', Version = ''1'', SHA256 = []\<rparr>,
             \<lparr>SearchResult.Name = ''foo'', Version = ''2'', SHA256 = ''C''\<rparr>,
             \<lparr>SearchResult.Name = ''foo-bar'', Version = ''2'', SHA256 = ''D''\<rparr>], None), []) \<and>
   map pair_p0 (firstOccurrences imageKey_p0 (concat (map Items (concat samplePages_p0)))) =
     [(''foo'', ''1''), (''foo-bar'', ''1''), (''foo'', ''2''), (''foo-bar'', ''2'')] \<and>
   distinct (map pair_p0 (firstOccurrences imageKey_p0 (concat (map Items (concat samplePages_p0))))) \<and>
   patternLoop_main ({}, []) [''foo*'', ''foo-bar*''] (map Inr (concat samplePages_main)) =
     Some (Inr ({''foo:1'', ''foo-bar:1'', ''foo:2'', ''foo-bar:2''},
            [[''name'' \<mapsto> ''foo'', ''version'' \<mapsto> ''1'', ''sha256'' \<mapsto> ''A''],
             [''name'' \<mapsto> ''foo-bar'', ''version'' \<mapsto> ''1'', ''sha256'' \<mapsto> []],
             [''name'' \<mapsto> ''foo'', ''version'' \<mapsto> ''2'', ''sha256'' \<mapsto> ''C''],
             [''name'' \<mapsto> ''foo-bar'', ''version'' \<mapsto> ''2'', ''sha256'' \<mapsto> ''D'']]), []) \<and>
   map pair_main (firstOccurrences imageKey_main (entries_main (concat samplePages_main))) =
     [(''foo'', ''1''), (''foo-bar'', ''1''), (''foo'', ''2''), (''foo-bar'', ''2'')] \<and>
   distinct (map pair_main (firstOccurrences imageKey_main (entries_main (concat samplePages_main))))"
proof -
  note th = first_seen_records[of samplePages_p0 "[''foo*'', ''foo-bar*'']" "[]" samplePages_main "[]"]
  have runs: "length samplePages_p0 = length [''foo*'', ''foo-bar*''] \<and> list_all lastPageOnly_p0 samplePages_p0"
    by (simp add: samplePages_p0_def)
  have runs': "length samplePages_main = length [''foo*'', ''foo-bar*''] \<and> list_all lastPageOnly_main samplePages_main"
    by (simp add: samplePages_main_def items_main_def token_main_def asString_def)
  have cf: "\<forall>c\<in>set (concat (map Items (concat samplePages_p0))). CHR '':'' \<notin> set (Component.Name c)"
    by (simp add: samplePages_p0_def sampleComponent_def)
  have es': "entries_main (concat samplePages_main) =
      [sampleFields ''foo'' ''1'' [''A'', ''B''], sampleFields ''foo-bar'' ''1'' [], sampleFields ''foo'' ''1'' [''A''],
       sampleFields ''foo'' ''2'' [''C''], sampleFields ''foo-bar'' ''1'' [], sampleFields ''foo-bar'' ''2'' [''D'']]"
    by (simp add: entries_main_def samplePages_main_def components_main_def sampleItem_def asArray_def)
  have cf': "\<forall>c\<in>set (entries_main (concat samplePages_main)). CHR '':'' \<notin> set (name_main c)"
    unfolding es' by (simp add: name_main_def asString_def sampleFields_def)
  have fo: "firstOccurrences imageKey_p0 (concat (map Items (concat samplePages_p0))) =
      [sampleComponent ''foo'' ''1'' [''A'', ''B''], sampleComponent ''foo-bar'' ''1'' [],
       sampleComponent ''foo'' ''2'' [''C''], sampleComponent ''foo-bar'' ''2'' [''D'']]"
    by code_simp
  have fo': "firstOccurrences imageKey_main (entries_main (concat samplePages_main)) =
      [sampleFields ''foo'' ''1'' [''A'', ''B''], sampleFields ''foo-bar'' ''1'' [],
       sampleFields ''foo'' ''2'' [''C''], sampleFields ''foo-bar'' ''2'' [''D'']]"
    by code_simp
  have keys: "set (map imageKey_main (entries_main (concat samplePages_main))) =
      {''foo:1'', ''foo-bar:1'', ''foo:2'', ''foo-bar:2''}"
    unfolding es' by (simp add: imageKey_main_def name_main_def version_main_def asString_def
        sampleFields_def insert_commute)
  from th runs have a: "SearchImages_p0 [''foo*'', ''foo-bar*''] (map Inr (concat samplePages_p0)) =
      Some ((map toResult_p0 (firstOccurrences imageKey_p0 (concat (map Items (concat samplePages_p0)))),
             None), [])"
    by simp
  have a': "SearchImages_p0 [''foo*'', ''foo-bar*''] (map Inr (concat samplePages_p0)) =
     Some (([\<lparr>SearchResult.Name = ''foo'', Version = ''1'', SHA256 = ''A''\<rparr>,
             \<lparr>SearchResult.Name = ''foo-bar'', Version = ''1'', SHA256 = []\<rparr>,
             \<lparr>SearchResult.Name = ''foo'', Version = ''2'', SHA256 = ''C''\<rparr>,
             \<lparr>SearchResult.Name = ''foo-bar'', Version = ''2'', SHA256 = ''D''\<rparr>], None), [])"
    unfolding a fo by (simp add: toResult_p0_def firstAssetDigest_p0_def sampleComponent_def)
  have b: "map pair_p0 (firstOccurrences imageKey_p0 (concat (map Items (concat samplePages_p0)))) =
     [(''foo'', ''1''), (''foo-bar'', ''1''), (''foo'', ''2''), (''foo-bar'', ''2'')]"
    unfolding fo by (simp add: pair_p0_def sampleComponent_def)
  from th runs cf
  have c: "distinct (map pair_p0 (firstOccurrences imageKey_p0 (concat (map Items (concat samplePages_p0)))))"
    by blast
  from th runs' have d: "patternLoop_main ({}, []) [''foo*'', ''foo-bar*''] (map Inr (concat samplePages_main)) =
      Some (Inr (set (map imageKey_main (entries_main (concat samplePages_main))),
                 map toImage_main (firstOccurrences imageKey_main (entries_main (concat samplePages_main)))),
            [])"
    by simp
  have d': "patternLoop_main ({}, []) [''foo*'', ''foo-bar*''] (map Inr (concat samplePages_main)) =
     Some (Inr ({''foo:1'', ''foo-bar:1'', ''foo:2'', ''foo-bar:2''},
            [[''name'' \<mapsto> ''foo'', ''version'' \<mapsto> ''1'', ''sha256'' \<mapsto> ''A''],
             [''name'' \<mapsto> ''foo-bar'', ''version'' \<mapsto> ''1'', ''sha256'' \<mapsto> []],
             [''name'' \<mapsto> ''foo'', ''version'' \<mapsto> ''2'', ''sha256'' \<mapsto> ''C''],
             [''name'' \<mapsto> ''foo-bar'', ''version'' \<mapsto> ''2'', ''sha256'' \<mapsto> ''D'']]), [])"
    unfolding d keys fo'
    by (simp add: toImage_main_def name_main_def version_main_def firstAssetDigest_main_def
        asString_def asArray_def asObject_def sampleFields_def)
  have e: "map pair_main (firstOccurrences imageKey_main (entries_main (concat samplePages_main))) =
     [(''foo'', ''1''), (''foo-bar'', ''1''), (''foo'', ''2''), (''foo-bar'', ''2'')]"
    unfolding fo' by (simp add: pair_main_def name_main_def version_main_def asString_def sampleFields_def)
  from th runs' cf'
  have f: "distinct (map pair_main (firstOccurrences imageKey_main (entries_main (concat samplePages_main))))"
    by blast
  from a' b c d' e f show ?thesis by blast
qed


lemma SearchAndFilterImages_p0_fails:
  "SearchImages_p0 patterns pre = None \<Longrightarrow>
   SearchAndFilterImages_p0 srt patterns (pre @ Inl err # rest) = Some ((Map.empty, Some err), rest)"
  by (simp add: SearchAndFilterImages_p0_def SearchImages_p0_fails)

text \<open>
  The runs that have not returned: after complete runs of pages for some of the patterns, but
  not all, and any number of further pages that all carry a continuation token, the next
  request is still to come.
\<close>

lemma pageLoop_p0_pending:
  "\<forall>p\<in>set partial. ContinuationToken p \<noteq> [] \<Longrightarrow> pageLoop_p0 st (map Inr partial) = None"
  by (induction partial arbitrary: st) simp_all

lemma patternLoop_p0_pending:
  "length runs < length patterns \<Longrightarrow> list_all lastPageOnly_p0 runs \<Longrightarrow>
   \<forall>p\<in>set partial. ContinuationToken p \<noteq> [] \<Longrightarrow>
   patternLoop_p0 st patterns (map Inr (concat runs @ partial)) = None"
proof (induction patterns arbitrary: runs st)
  case Nil
  then show ?case by simp
next
  case (Cons pattern patterns)
  show ?case
  proof (cases runs)
    case Nil
    with Cons.prems(3) show ?thesis by (simp add: pageLoop_p0_pending)
  next
    case (Cons run runs')
    with Cons.prems have len: "length runs' < length patterns"
      and r: "lastPageOnly_p0 run" and rs: "list_all lastPageOnly_p0 runs'" by simp_all
    have "pageLoop_p0 st (map Inr run @ map Inr (concat runs' @ partial)) =
        Some (Inr (foldl addComponent_p0 st (concat (map Items run))), map Inr (concat runs' @ partial))"
      by (rule pageLoop_p0_run[OF r])
    then show ?thesis
      using Cons.IH[OF len rs Cons.prems(3)] Cons by simp
  qed
qed

lemma SearchImages_p0_pending:
  "length runs < length patterns \<Longrightarrow> list_all lastPageOnly_p0 runs \<Longrightarrow>
   \<forall>p\<in>set partial. ContinuationToken p \<noteq> [] \<Longrightarrow>
   SearchImages_p0 patterns (map Inr (concat runs @ partial)) = None"
  using patternLoop_p0_pending[of runs patterns partial "({}, [])"]
  by (simp add: SearchImages_p0_def)

lemma pageLoop_main_pending:
  "\<forall>p\<in>set partial. items_main p \<noteq> None \<and> token_main p \<noteq> [] \<Longrightarrow>
   pageLoop_main st (map Inr partial) = None"
proof (induction partial arbitrary: st)
  case Nil
  show ?case by simp
next
  case (Cons p partial)
  from Cons.prems obtain items where "items_main p = Some items" and "token_main p \<noteq> []"
    by auto
  moreover have "pageLoop_main (foldl addItem_main st items) (map Inr partial) = None"
    using Cons.prems by (intro Cons.IH) simp
  ultimately show ?case by (simp add: pageLoop_main_page)
qed

lemma patternLoop_main_pending:
  "length runs < length patterns \<Longrightarrow> list_all lastPageOnly_main runs \<Longrightarrow>
   \<forall>p\<in>set partial. items_main p \<noteq> None \<and> token_main p \<noteq> [] \<Longrightarrow>
   patternLoop_main st patterns (map Inr (concat runs @ partial)) = None"
proof (induction patterns arbitrary: runs st)
  case Nil
  then show ?case by simp
next
  case (Cons pattern patterns)
  show ?case
  proof (cases runs)
    case Nil
    with Cons.prems(3) show ?thesis by (simp add: pageLoop_main_pending)
  next
    case (Cons run runs')
    with Cons.prems have len: "length runs' < length patterns"
      and r: "lastPageOnly_main run" and rs: "list_all lastPageOnly_main runs'" by simp_all
    have "pageLoop_main st (map Inr run @ map Inr (concat runs' @ partial)) =
        Some (Inr (foldl addItem_main st (concat (map (\<lambda>p. asArray (map_of p ''items'')) run))),
              map Inr (concat runs' @ partial))"
      by (rule pageLoop_main_run[OF r])
    then show ?thesis
      using Cons.IH[OF len rs Cons.prems(3)] Cons by simp
  qed
qed

lemma SearchImages_main_pending:
  "length runs < length patterns \<Longrightarrow> list_all lastPageOnly_main runs \<Longrightarrow>
   \<forall>p\<in>set partial. items_main p \<noteq> None \<and> token_main p \<noteq> [] \<Longrightarrow>
   SearchImages_main srt patterns (map Inr (concat runs @ partial)) = None"
  using patternLoop_main_pending[of runs patterns partial "({}, [])"]
  by (simp add: SearchImages_main_def)

text \<open>
  Claim C6. Let \<open>pre\<close> be replies after which the run has not returned (it goes on to its
  next request): complete runs of pages for some of the patterns and further pages of the
  pattern at hand. If the next request fails, \<^verbatim>\<open>SearchImages\<close> returns the error and no
  record, whatever was collected from \<open>pre\<close>, and no further request is made (the replies
  \<open>rest\<close> are left). In part_000 every failure of a request, an undecodable body
  included, is an error of \<^verbatim>\<open>makeRequest\<close>, and \<^verbatim>\<open>SearchAndFilterImages\<close> passes it
  on; in main.go the error is wrapped, and a decoded page without an \<^verbatim>\<open>"items"\<close> array is
  an error as well.
\<close>

theorem failed_request_aborts:
  "(SearchImages_p0 patterns pre = None \<longrightarrow>
      SearchImages_p0 patterns (pre @ Inl err # rest) = Some (([], Some err), rest) \<and>
      SearchAndFilterImages_p0 srt patterns (pre @ Inl err # rest) = Some ((Map.empty, Some err), rest)) \<and>
   (length runs < length patterns \<and> list_all lastPageOnly_p0 runs \<and>
    (\<forall>p\<in>set partial. ContinuationToken p \<noteq> []) \<longrightarrow>
      SearchImages_p0 patterns (map Inr (concat runs @ partial) @ Inl err # rest) =
        Some (([], Some err), rest)) \<and>
   (SearchImages_main srt patterns pre' = None \<longrightarrow>
      SearchImages_main srt patterns (pre' @ Inl err # rest') =
        Some ((Map.empty, Some (SearchFailed err)), rest') \<and>
      (items_main data = None \<longrightarrow>
         SearchImages_main srt patterns (pre' @ Inr data # rest') =
           Some ((Map.empty, Some InvalidResponseFormat), rest'))) \<and>
   (length runs' < length patterns \<and> list_all lastPageOnly_main runs' \<and>
    (\<forall>p\<in>set partial'. items_main p \<noteq> None \<and> token_main p \<noteq> []) \<longrightarrow>
      SearchImages_main srt patterns (map Inr (concat runs' @ partial') @ Inl err # rest') =
        Some ((Map.empty, Some (SearchFailed err)), rest'))"
proof (intro conjI impI; (elim conjE)?)
  {
    assume "SearchImages_p0 patterns pre = None"
    then show "SearchImages_p0 patterns (pre @ Inl err # rest) = Some (([], Some err), rest)"
      and "SearchAndFilterImages_p0 srt patterns (pre @ Inl err # rest) = Some ((Map.empty, Some err), rest)"
      by (rule SearchImages_p0_fails, rule SearchAndFilterImages_p0_fails)
  }
  {
    assume "length runs < length patterns" "list_all lastPageOnly_p0 runs"
      "\<forall>p\<in>set partial. ContinuationToken p \<noteq> []"
    then have "SearchImages_p0 patterns (map Inr (concat runs @ partial)) = None"
      by (rule SearchImages_p0_pending)
    then show "SearchImages_p0 patterns (map Inr (concat runs @ partial) @ Inl err # rest) =
        Some (([], Some err), rest)"
      by (rule SearchImages_p0_fails)
  }
  have wrapped: "replyError_main (Inl err) = Some (SearchFailed err)"
    by (simp add: replyError_main_def)
  {
    assume n: "SearchImages_main srt patterns pre' = None"
    from SearchImages_main_fails[OF n wrapped]
    show "SearchImages_main srt patterns (pre' @ Inl err # rest') =
          Some ((Map.empty, Some (SearchFailed err)), rest')" .
    assume "items_main data = None"
    then have "replyError_main (Inr data) = Some InvalidResponseFormat"
      by (simp add: replyError_main_def)
    from SearchImages_main_fails[OF n this]
    show "SearchImages_main srt patterns (pre' @ Inr data # rest') =
             Some ((Map.empty, Some InvalidResponseFormat), rest')" .
  }
  {
    assume "length runs' < length patterns" "list_all lastPageOnly_main runs'"
      "\<forall>p\<in>set partial'. items_main p \<noteq> None \<and> token_main p \<noteq> []"
    then have "SearchImages_main srt patterns (map Inr (concat runs' @ partial')) = None"
      by (rule SearchImages_main_pending)
    from SearchImages_main_fails[OF this wrapped]
    show "SearchImages_main srt patterns (map Inr (concat runs' @ partial') @ Inl err # rest') =
        Some ((Map.empty, Some (SearchFailed err)), rest')" .
  }
qed

theorem failed_request_aborts_witness:
  "SearchImages_p0 [''foo*'', ''foo-bar*''] (map Inr (samplePages_p0 ! 0)) = None \<and>
   SearchImages_p0 [''foo*'', ''foo-bar*''] (map Inr (samplePages_p0 ! 0) @ [Inl (HTTPStatus 500)]) =
     Some (([], Some (HTTPStatus 500)), []) \<and>
   SearchImages_p0 [''foo*'', ''foo-bar*'']
       (map Inr (concat [] @ [samplePages_p0 ! 0 ! 0]) @ [Inl BodyUndecodable]) =
     Some (([], Some BodyUndecodable), []) \<and>
   SearchImages_main insertionSort [''foo*'', ''foo-bar*''] (map Inr (samplePages_main ! 0)) = None \<and>
   SearchImages_main insertionSort [''foo*'', ''foo-bar*'']
       (map Inr (samplePages_main ! 0) @ [Inl TransportFailed]) =
     Some ((Map.empty, Some (SearchFailed TransportFailed)), []) \<and>
   items_main [(''items'', JNull)] = None \<and>
   SearchImages_main insertionSort [''foo*'', ''foo-bar*'']
       (map Inr (samplePages_main ! 0) @ [Inr [(''items'', JNull)]]) =
     Some ((Map.empty, Some InvalidResponseFormat), []) \<and>
   SearchImages_main insertionSort [''foo*'', ''foo-bar*'']
       (map Inr (concat [] @ [samplePages_main ! 0 ! 0]) @ [Inl (HTTPStatus 404)]) =
     Some ((Map.empty, Some (SearchFailed (HTTPStatus 404))), [])"
proof -
  have a: "SearchImages_p0 [''foo*'', ''foo-bar*''] (map Inr (samplePages_p0 ! 0)) = None"
    by (simp add: SearchImages_p0_def samplePages_p0_def)
  have b: "SearchImages_main insertionSort [''foo*'', ''foo-bar*''] (map Inr (samplePages_main ! 0)) = None"
    by (simp add: SearchImages_main_def samplePages_main_def pageLoop_main_page items_main_def
        token_main_def asString_def)
  have c: "items_main [(''items'', JNull)] = None"
    by (simp add: items_main_def)
  have p: "\<forall>p\<in>set [samplePages_p0 ! 0 ! 0]. ContinuationToken p \<noteq> []"
    by (simp add: samplePages_p0_def)
  have p': "\<forall>p\<in>set [samplePages_main ! 0 ! 0]. items_main p \<noteq> None \<and> token_main p \<noteq> []"
    by (simp add: samplePages_main_def items_main_def token_main_def asString_def)
  note t1 = failed_request_aborts[where patterns = "[''foo*'', ''foo-bar*'']"
      and pre = "map Inr (samplePages_p0 ! 0)" and err = "HTTPStatus 500" and rest = "[]"
      and srt = insertionSort and runs = "[]" and partial = "[]" and pre' = "[]" and rest' = "[]"
      and data = "[]" and runs' = "[]" and partial' = "[]"]
  note t2 = failed_request_aborts[where patterns = "[''foo*'', ''foo-bar*'']"
      and pre = "[]" and err = "BodyUndecodable" and rest = "[]"
      and srt = insertionSort and runs = "[]" and partial = "[samplePages_p0 ! 0 ! 0]"
      and pre' = "[]" and rest' = "[]" and data = "[]" and runs' = "[]" and partial' = "[]"]
  note t3 = failed_request_aborts[where patterns = "[''foo*'', ''foo-bar*'']"
      and pre = "[]" and err = "TransportFailed" and rest = "[]"
      and srt = insertionSort and runs = "[]" and partial = "[]"
      and pre' = "map Inr (samplePages_main ! 0)" and rest' = "[]" and data = "[(''items'', JNull)]"
      and runs' = "[]" and partial' = "[]"]
  note t4 = failed_request_aborts[where patterns = "[''foo*'', ''foo-bar*'']"
      and pre = "[]" and err = "HTTPStatus 404" and rest = "[]"
      and srt = insertionSort and runs = "[]" and partial = "[]"
      and pre' = "[]" and rest' = "[]" and data = "[]"
      and runs' = "[]" and partial' = "[samplePages_main ! 0 ! 0]"]
  from t1 a
  have d: "SearchImages_p0 [''foo*'', ''foo-bar*''] (map Inr (samplePages_p0 ! 0) @ [Inl (HTTPStatus 500)]) =
     Some (([], Some (HTTPStatus 500)), [])"
    by blast
  from t2[THEN conjunct2, THEN conjunct1] p
  have e: "SearchImages_p0 [''foo*'', ''foo-bar*'']
       (map Inr (concat [] @ [samplePages_p0 ! 0 ! 0]) @ [Inl BodyUndecodable]) =
     Some (([], Some BodyUndecodable), [])"
    by simp
  from t3 b c
  have f: "SearchImages_main insertionSort [''foo*'', ''foo-bar*'']
       (map Inr (samplePages_main ! 0) @ [Inl TransportFailed]) =
     Some ((Map.empty, Some (SearchFailed TransportFailed)), [])"
    and g: "SearchImages_main insertionSort [''foo*'', ''foo-bar*'']
       (map Inr (samplePages_main ! 0) @ [Inr [(''items'', JNull)]]) =
     Some ((Map.empty, Some InvalidResponseFormat), [])"
    by blast+
  from t4[THEN conjunct2, THEN conjunct2, THEN conjunct2] p'
  have h: "SearchImages_main insertionSort [''foo*'', ''foo-bar*'']
       (map Inr (concat [] @ [samplePages_main ! 0 ! 0]) @ [Inl (HTTPStatus 404)]) =
     Some ((Map.empty, Some (SearchFailed (HTTPStatus 404))), [])"
    by simp
  from a b c d e f g h show ?thesis by blast
qed

lemma sha256_toImage_main:
  "map (\<lambda>m. field m ''sha256'') (map toImage_main es) = map firstAssetDigest_main es"
  by (simp add: toImage_main_def field_def)

text \<open>
  Claim C7. An entry that is not dropped as a duplicate becomes a record with the entry's
  name and version and, as digest, the sha256 checksum of the entry's first asset; an entry
  without assets becomes the record with the empty digest. The step has no error result, and
  a run over complete pages returns without error, the digests of its records being those of
  the first assets of the entries kept. In main.go the digest is read through type
  assertions: it is the string at \<^verbatim>\<open>assets[0].checksum.sha256\<close> when the entry has
  that shape.
\<close>

theorem first_asset_digest:
  "(imageKey_p0 c \<notin> seen \<longrightarrow>
      addComponent_p0 (seen, matching) c =
        (insert (imageKey_p0 c) seen,
         matching @
           [\<lparr>SearchResult.Name = Component.Name c, Version = Component.Version c,
             SHA256 = (case Assets c of [] \<Rightarrow> [] | a # _ \<Rightarrow> Checksum.SHA256 (Asset.Checksum a))\<rparr>])) \<and>
   (imageKey_main j \<notin> seen' \<longrightarrow>
      addItem_main (seen', matching') (JObject j) =
        (insert (imageKey_main j) seen',
         matching' @
           [[''name'' \<mapsto> name_main j, ''version'' \<mapsto> version_main j,
             ''sha256'' \<mapsto> firstAssetDigest_main j]])) \<and>
   (map_of j ''assets'' = Some (JArray (JObject asset # others)) \<and>
    map_of asset ''checksum'' = Some (JObject checksum) \<and>
    map_of checksum ''sha256'' = Some (JString d) \<longrightarrow> firstAssetDigest_main j = d) \<and>
   (asArray (map_of j ''assets'') = [] \<longrightarrow> firstAssetDigest_main j = []) \<and>
   (length runs = length patterns \<and> list_all lastPageOnly_p0 runs \<longrightarrow>
      (\<exists>records.
         SearchImages_p0 patterns (map Inr (concat runs) @ rest) = Some ((records, None), rest) \<and>
         map SearchResult.SHA256 records =
           map (\<lambda>c. case Assets c of [] \<Rightarrow> [] | a # _ \<Rightarrow> Checksum.SHA256 (Asset.Checksum a))
             (firstOccurrences imageKey_p0 (concat (map Items (concat runs)))))) \<and>
   (length runs' = length patterns \<and> list_all lastPageOnly_main runs' \<longrightarrow>
      (\<exists>seenImages matchingImages.
         patternLoop_main ({}, []) patterns (map Inr (concat runs') @ rest') =
           Some (Inr (seenImages, matchingImages), rest') \<and>
         map (\<lambda>m. field m ''sha256'') matchingImages =
           map firstAssetDigest_main (firstOccurrences imageKey_main (entries_main (concat runs')))))"
proof (intro conjI impI; (elim conjE)?)
  show "imageKey_p0 c \<notin> seen \<Longrightarrow>
      addComponent_p0 (seen, matching) c =
        (insert (imageKey_p0 c) seen,
         matching @
           [\<lparr>SearchResult.Name = Component.Name c, Version = Component.Version c,
             SHA256 = (case Assets c of [] \<Rightarrow> [] | a # _ \<Rightarrow> Checksum.SHA256 (Asset.Checksum a))\<rparr>])"
    by (simp add: addComponent_p0_eq toResult_p0_def firstAssetDigest_p0_def)
  show "imageKey_main j \<notin> seen' \<Longrightarrow>
      addItem_main (seen', matching') (JObject j) =
        (insert (imageKey_main j) seen',
         matching' @
           [[''name'' \<mapsto> name_main j, ''version'' \<mapsto> version_main j,
             ''sha256'' \<mapsto> firstAssetDigest_main j]])"
    by (simp add: addItem_main_object toImage_main_def)
  show "map_of j ''assets'' = Some (JArray (JObject asset # others)) \<Longrightarrow>
    map_of asset ''checksum'' = Some (JObject checksum) \<Longrightarrow>
    map_of checksum ''sha256'' = Some (JString d) \<Longrightarrow> firstAssetDigest_main j = d"
    by (simp add: firstAssetDigest_main_def asArray_def asObject_def asString_def)
  show "asArray (map_of j ''assets'') = [] \<Longrightarrow> firstAssetDigest_main j = []"
    by (simp add: firstAssetDigest_main_def)
  {
    assume r: "length runs = length patterns" "list_all lastPageOnly_p0 runs"
    have "map SearchResult.SHA256
            (map toResult_p0 (firstOccurrences imageKey_p0 (concat (map Items (concat runs))))) =
          map (\<lambda>c. case Assets c of [] \<Rightarrow> [] | a # _ \<Rightarrow> Checksum.SHA256 (Asset.Checksum a))
             (firstOccurrences imageKey_p0 (concat (map Items (concat runs))))"
      by (simp add: toResult_p0_def firstAssetDigest_p0_def)
    with SearchImages_p0_runs[OF r, of rest]
    show "\<exists>records.
         SearchImages_p0 patterns (map Inr (concat runs) @ rest) = Some ((records, None), rest) \<and>
         map SearchResult.SHA256 records =
           map (\<lambda>c. case Assets c of [] \<Rightarrow> [] | a # _ \<Rightarrow> Checksum.SHA256 (Asset.Checksum a))
             (firstOccurrences imageKey_p0 (concat (map Items (concat runs))))"
      by blast
  }
  {
    assume r: "length runs' = length patterns" "list_all lastPageOnly_main runs'"
    from patternLoop_main_aggregate[OF r, of rest'] sha256_toImage_main
    show "\<exists>seenImages matchingImages.
         patternLoop_main ({}, []) patterns (map Inr (concat runs') @ rest') =
           Some (Inr (seenImages, matchingImages), rest') \<and>
         map (\<lambda>m. field m ''sha256'') matchingImages =
           map firstAssetDigest_main (firstOccurrences imageKey_main (entries_main (concat runs')))"
      by blast
  }
qed

theorem first_asset_digest_witness:
  "addComponent_p0 ({''foo:1''}, []) (sampleComponent ''foo'' ''2'' [''A'', ''B'']) =
     ({''foo:1'', ''foo:2''}, [\<lparr>SearchResult.Name = ''foo'', Version = ''2'', SHA256 = ''A''\<rparr>]) \<and>
   addComponent_p0 ({''foo:1''}, []) (sampleComponent ''foo'' ''3'' []) =
     ({''foo:1'', ''foo:3''}, [\<lparr>SearchResult.Name = ''foo'', Version = ''3'', SHA256 = []\<rparr>]) \<and>
   addItem_main ({''foo:1''}, []) (sampleItem ''foo'' ''2'' [''A'', ''B'']) =
     ({''foo:1'', ''foo:2''}, [[''name'' \<mapsto> ''foo'', ''version'' \<mapsto> ''2'', ''sha256'' \<mapsto> ''A'']]) \<and>
   addItem_main ({''foo:1''}, []) (sampleItem ''foo'' ''3'' []) =
     ({''foo:1'', ''foo:3''}, [[''name'' \<mapsto> ''foo'', ''version'' \<mapsto> ''3'', ''sha256'' \<mapsto> []]]) \<and>
   (\<exists>records.
      SearchImages_p0 [''foo*'', ''foo-bar*''] (map Inr (concat samplePages_p0)) =
        Some ((records, None), []) \<and>
      map SearchResult.SHA256 records = [''A'', [], ''C'', ''D'']) \<and>
   (\<exists>seenImages matchingImages.
      patternLoop_main ({}, []) [''foo*'', ''foo-bar*''] (map Inr (concat samplePages_main)) =
        Some (Inr (seenImages, matchingImages), []) \<and>
      map (\<lambda>m. field m ''sha256'') matchingImages = [''A'', [], ''C'', ''D''])"
proof -
  have k: "imageKey_p0 (sampleComponent ''foo'' ''2'' [''A'', ''B'']) = ''foo:2''"
    "imageKey_p0 (sampleComponent ''foo'' ''3'' []) = ''foo:3''"
    by (simp_all add: imageKey_p0_def sampleComponent_def)
  have k': "imageKey_main (sampleFields ''foo'' ''2'' [''A'', ''B'']) = ''foo:2''"
    "imageKey_main (sampleFields ''foo'' ''3'' []) = ''foo:3''"
    by (simp_all add: imageKey_main_def name_main_def version_main_def asString_def sampleFields_def)
  have nv: "name_main (sampleFields ''foo'' ''2'' [''A'', ''B'']) = ''foo''"
    "version_main (sampleFields ''foo'' ''2'' [''A'', ''B'']) = ''2''"
    "name_main (sampleFields ''foo'' ''3'' []) = ''foo''"
    "version_main (sampleFields ''foo'' ''3'' []) = ''3''"
    by (simp_all add: name_main_def version_main_def asString_def sampleFields_def)
  note t2 = first_asset_digest[where c = "sampleComponent ''foo'' ''2'' [''A'', ''B'']"
      and seen = "{''foo:1''}" and matching = "[]"
      and j = "sampleFields ''foo'' ''2'' [''A'', ''B'']" and seen' = "{''foo:1''}" and matching' = "[]"
      and asset = "[(''checksum'', JObject [(''sha256'', JString ''A'')])]"
      and others = "[JObject [(''checksum'', JObject [(''sha256'', JString ''B'')])]]"
      and checksum = "[(''sha256'', JString ''A'')]" and d = "''A''"
      and runs = samplePages_p0 and patterns = "[''foo*'', ''foo-bar*'']" and rest = "[]"
      and runs' = samplePages_main and rest' = "[]"]
  note t3 = first_asset_digest[where c = "sampleComponent ''foo'' ''3'' []"
      and seen = "{''foo:1''}" and matching = "[]"
      and j = "sampleFields ''foo'' ''3'' []" and seen' = "{''foo:1''}" and matching' = "[]"
      and asset = "[]" and others = "[]" and checksum = "[]" and d = "[]"
      and runs = "[]" and patterns = "[]" and rest = "[]" and runs' = "[]" and rest' = "[]"]
  have d2: "firstAssetDigest_main (sampleFields ''foo'' ''2'' [''A'', ''B'']) = ''A''"
    using t2[THEN conjunct2, THEN conjunct2, THEN conjunct1] by (simp add: sampleFields_def)
  have d3: "firstAssetDigest_main (sampleFields ''foo'' ''3'' []) = []"
    using t3[THEN conjunct2, THEN conjunct2, THEN conjunct2, THEN conjunct1]
    by (simp add: sampleFields_def asArray_def)
  have a: "addComponent_p0 ({''foo:1''}, []) (sampleComponent ''foo'' ''2'' [''A'', ''B'']) =
     ({''foo:1'', ''foo:2''}, [\<lparr>SearchResult.Name = ''foo'', Version = ''2'', SHA256 = ''A''\<rparr>])"
    using t2[THEN conjunct1] unfolding k by (simp add: sampleComponent_def insert_commute)
  have b: "addComponent_p0 ({''foo:1''}, []) (sampleComponent ''foo'' ''3'' []) =
     ({''foo:1'', ''foo:3''}, [\<lparr>SearchResult.Name = ''foo'', Version = ''3'', SHA256 = []\<rparr>])"
    using t3[THEN conjunct1] unfolding k by (simp add: sampleComponent_def insert_commute)
  have c: "addItem_main ({''foo:1''}, []) (sampleItem ''foo'' ''2'' [''A'', ''B'']) =
     ({''foo:1'', ''foo:2''}, [[''name'' \<mapsto> ''foo'', ''version'' \<mapsto> ''2'', ''sha256'' \<mapsto> ''A'']])"
    using t2[THEN conjunct2, THEN conjunct1] unfolding k' nv d2 sampleItem_def
    by (simp add: insert_commute)
  have d: "addItem_main ({''foo:1''}, []) (sampleItem ''foo'' ''3'' []) =
     ({''foo:1'', ''foo:3''}, [[''name'' \<mapsto> ''foo'', ''version'' \<mapsto> ''3'', ''sha256'' \<mapsto> []]])"
    using t3[THEN conjunct2, THEN conjunct1] unfolding k' nv d3 sampleItem_def
    by (simp add: insert_commute)
  have runs: "length samplePages_p0 = length [''foo*'', ''foo-bar*''] \<and> list_all lastPageOnly_p0 samplePages_p0"
    by (simp add: samplePages_p0_def)
  have runs': "length samplePages_main = length [''foo*'', ''foo-bar*''] \<and> list_all lastPageOnly_main samplePages_main"
    by (simp add: samplePages_main_def items_main_def token_main_def asString_def)
  have fo: "map (\<lambda>c. case Assets c of [] \<Rightarrow> [] | a # _ \<Rightarrow> Checksum.SHA256 (Asset.Checksum a))
      (firstOccurrences imageKey_p0 (concat (map Items (concat samplePages_p0)))) = [''A'', [], ''C'', ''D'']"
    by code_simp
  have fo': "map firstAssetDigest_main
      (firstOccurrences imageKey_main (entries_main (concat samplePages_main))) = [''A'', [], ''C'', ''D'']"
    by code_simp
  have e: "\<exists>records.
      SearchImages_p0 [''foo*'', ''foo-bar*''] (map Inr (concat samplePages_p0)) =
        Some ((records, None), []) \<and>
      map SearchResult.SHA256 records = [''A'', [], ''C'', ''D'']"
    using t2[THEN conjunct2, THEN conjunct2, THEN conjunct2, THEN conjunct2, THEN conjunct1] runs
    unfolding fo by simp
  have f: "\<exists>seenImages matchingImages.
      patternLoop_main ({}, []) [''foo*'', ''foo-bar*''] (map Inr (concat samplePages_main)) =
        Some (Inr (seenImages, matchingImages), []) \<and>
      map (\<lambda>m. field m ''sha256'') matchingImages = [''A'', [], ''C'', ''D'']"
    using t2[THEN conjunct2, THEN conjunct2, THEN conjunct2, THEN conjunct2, THEN conjunct2] runs'
    unfolding fo' by simp
  from a b c d e f show ?thesis by blast
qed

end
